theory Spec2Isabelle
  imports Main "HOL-Library.AList" "HOL-Library.Sublist" "HOL-Library.Word"
    "HOL-Library.Code_Target_Nat"
begin

text \<open>
  The cache of the NAKODX file retriever and its adapter to the \<^verbatim>\<open>sf\<close> command-line
  tool, as written in \<^verbatim>\<open>src/extension.ts\<close>: the interpretation of the JSON the tool prints,
  the two caches in memory and on disk with their freshness, the purge when caching is
  switched off, the clearing of the item lists of an org, and the coalescing of
  concurrent requests for one item list. The definitions come first, each under the
  name of the function it models; the properties follow, one claim at a time.
\<close>

section \<open>JavaScript values read from the command-line tool\<close>

text \<open>
  A string is the list of its UTF-16 code units, and a character of the model is a code
  unit below \<^verbatim>\<open>U+0100\<close>. A number of the model is an integer of 54 bits read as signed,
  from \<open>- 2 ^ 53\<close> to \<open>2 ^ 53 - 1\<close>: a JavaScript number holds each of them exactly,
  \<^verbatim>\<open>JSON.parse\<close> reads each of them from its decimal digits, and
  \<^verbatim>\<open>Number.prototype.toString\<close> prints each of them as its decimal digits, without an
  exponent. Fractions and numbers of greater magnitude are outside the model; a numeral
  of this type outside the range stands for the number in the range that differs from
  it by a multiple of \<open>2 ^ 54\<close>, and none is written below.
\<close>

type_synonym number = "54 word"

text \<open>
  The extension reads the standard output of the \<^verbatim>\<open>sf\<close> tool with \<^verbatim>\<open>JSON.parse\<close> and
  handles the result as \<^verbatim>\<open>any\<close>. A parsed payload is a value of \<open>json\<close>; the JavaScript
  value \<^verbatim>\<open>undefined\<close> (a missing property) is \<open>None\<close> of \<open>json option\<close>. An object is the
  list of its members in source order.
\<close>

datatype json =
    JNull
  | JBool bool
  | JNum number
  | JStr string
  | JArr "json list"
  | JObj "(string \<times> json) list"

text \<open>What a handler can throw, and what a promise can be rejected with.\<close>

record sf_cli_error =
  message :: string
  codeStr :: "json option"
  ctx :: "json option"
  status :: "json option"
  exitCode :: "json option"
  stderr :: "string option"
  rawJson :: "json option"

datatype thrown =
    TypeError
  | PlainError string
  | SfCliError sf_cli_error
  | IoError

text \<open>The rest of a computation that may have thrown.\<close>

definition and_then :: "thrown + 'a \<Rightarrow> ('a \<Rightarrow> thrown + 'b) \<Rightarrow> thrown + 'b" where
  "and_then r f = (case r of Inl e \<Rightarrow> Inl e | Inr v \<Rightarrow> f v)"

text \<open>
  Property access \<^verbatim>\<open>v?.k\<close>: \<^verbatim>\<open>undefined\<close> on \<^verbatim>\<open>null\<close> and on a value without the
  property. None of the names the extension reads is a property of a string, a number,
  a boolean or an array, or of the prototype of an object. \<^verbatim>\<open>JSON.parse\<close> keeps the last
  of two members with one name.
\<close>

fun field :: "json \<Rightarrow> string \<Rightarrow> json option" where
  "field (JObj kvs) k = map_of (rev kvs) k"
| "field _ k = None"

definition opt_field :: "json option \<Rightarrow> string \<Rightarrow> json option" where
  "opt_field v k = (case v of None \<Rightarrow> None | Some j \<Rightarrow> field j k)"

text \<open>JavaScript truthiness, which every \<^verbatim>\<open>if (x)\<close>, \<^verbatim>\<open>!x\<close> and \<^verbatim>\<open>x || y\<close> tests.\<close>

fun truthy :: "json \<Rightarrow> bool" where
  "truthy JNull = False"
| "truthy (JBool b) = b"
| "truthy (JNum n) = (n \<noteq> 0)"
| "truthy (JStr s) = (s \<noteq> [])"
| "truthy (JArr xs) = True"
| "truthy (JObj kvs) = True"

definition truthy_opt :: "json option \<Rightarrow> bool" where
  "truthy_opt v = (case v of None \<Rightarrow> False | Some j \<Rightarrow> truthy j)"

definition js_or :: "json option \<Rightarrow> json option \<Rightarrow> json option" where
  "js_or a b = (if truthy_opt a then a else b)"

text \<open>The decimal digits of an integer, and the string JavaScript prints for a number.\<close>

definition digit :: "nat \<Rightarrow> char" where
  "digit d = ''0123456789'' ! d"

fun digits :: "nat \<Rightarrow> string" where
  "digits n = (if n < 10 then [digit n] else digits (n div 10) @ [digit (n mod 10)])"

definition decimal :: "int \<Rightarrow> string" where
  "decimal i = (if i < 0 then CHR ''-'' # digits (nat (- i)) else digits (nat i))"

definition number_to_string :: "number \<Rightarrow> string" where
  "number_to_string n = decimal (sint n)"

fun join :: "string \<Rightarrow> string list \<Rightarrow> string" where
  "join sep [] = []"
| "join sep [x] = x"
| "join sep (x # y # ys) = x @ sep @ join sep (y # ys)"

text \<open>
  The conversion to a string that a template literal, \<^verbatim>\<open>Array.prototype.join\<close> and the
  constructor of \<^verbatim>\<open>Error\<close> apply to a value. An array is printed by its \<^verbatim>\<open>join\<close>, in
  which \<^verbatim>\<open>null\<close> gives the empty string. An object is printed by the \<^verbatim>\<open>toString\<close> it
  inherits, unless it has a member of that name: a member read by \<^verbatim>\<open>JSON.parse\<close> is no
  function, the conversion then finds no way to a primitive value, and it throws a
  TypeError.
\<close>

fun to_string :: "json \<Rightarrow> thrown + string"
  and to_strings :: "json list \<Rightarrow> thrown + string list" where
  "to_string JNull = Inr ''null''"
| "to_string (JBool b) = Inr (if b then ''true'' else ''false'')"
| "to_string (JNum n) = Inr (number_to_string n)"
| "to_string (JStr s) = Inr s"
| "to_string (JArr xs) =
     (case to_strings xs of Inl e \<Rightarrow> Inl e | Inr ss \<Rightarrow> Inr (join '','' ss))"
| "to_string (JObj kvs) =
     (if map_of kvs ''toString'' = None then Inr ''[object Object]'' else Inl TypeError)"
| "to_strings [] = Inr []"
| "to_strings (x # xs) =
     (case (if x = JNull then Inr [] else to_string x) of
        Inl e \<Rightarrow> Inl e
      | Inr s \<Rightarrow> (case to_strings xs of Inl e \<Rightarrow> Inl e | Inr ss \<Rightarrow> Inr (s # ss)))"

definition js_join :: "string \<Rightarrow> json list \<Rightarrow> thrown + string" where
  "js_join sep xs = (case to_strings xs of Inl e \<Rightarrow> Inl e | Inr ss \<Rightarrow> Inr (join sep ss))"

definition opt_string :: "json option \<Rightarrow> thrown + string" where
  "opt_string v = (case v of None \<Rightarrow> Inr ''undefined'' | Some j \<Rightarrow> to_string j)"

text \<open>
  \<^verbatim>\<open>String.prototype.trim\<close> removes white space and line terminators from both ends.
  Among the code units below \<^verbatim>\<open>U+0100\<close> these are the tab, the line feed, the vertical
  tab, the form feed, the carriage return, the space and the no-break space.
\<close>

definition is_ws :: "char \<Rightarrow> bool" where
  "is_ws c =
     (c \<in> set [CHR 0x09, CHR 0x0A, CHR 0x0B, CHR 0x0C, CHR 0x0D, CHR 0x20, CHR 0xA0])"

definition trim :: "string \<Rightarrow> string" where
  "trim s = rev (dropWhile is_ws (rev (dropWhile is_ws s)))"

section \<open>The result interpreter\<close>

text \<open>
  \<^verbatim>\<open>msgs.map((m) => (m.problem || m.message || m))\<close>: the callback reads a property
  of \<open>m\<close> without \<^verbatim>\<open>?.\<close>, so it throws a TypeError on \<^verbatim>\<open>null\<close>.
\<close>

fun entry_text :: "json \<Rightarrow> thrown + json" where
  "entry_text JNull = Inl TypeError"
| "entry_text m =
     Inr (case js_or (js_or (field m ''problem'') (field m ''message'')) (Some m) of
            None \<Rightarrow> m | Some v \<Rightarrow> v)"

fun map_entries :: "json list \<Rightarrow> thrown + json list" where
  "map_entries [] = Inr []"
| "map_entries (m # ms) =
     (case entry_text m of
        Inl e \<Rightarrow> Inl e
      | Inr v \<Rightarrow> (case map_entries ms of Inl e \<Rightarrow> Inl e | Inr vs \<Rightarrow> Inr (v # vs)))"

text \<open>Priority 2 of \<^verbatim>\<open>buildHumanMessage\<close>: the messages of a retrieve result.\<close>

definition from_messages :: "json option \<Rightarrow> thrown + json option" where
  "from_messages msgs =
     (case msgs of
        Some (JArr (first # rest)) \<Rightarrow>
          if truthy_opt (field first ''problem'') then Inr (field first ''problem'')
          else and_then (map_entries (first # rest)) (\<lambda>vs.
               and_then (js_join ''; '' vs) (\<lambda>joined.
               if joined \<noteq> [] then Inr (Some (JStr joined)) else Inr None))
      | Some (JStr s) \<Rightarrow> if trim s \<noteq> [] then Inr (Some (JStr (trim s))) else Inr None
      | _ \<Rightarrow> Inr None)"

text \<open>
  \<^verbatim>\<open>json?.result?.files ?? []\<close> and \<^verbatim>\<open>files.find(...)\<close>: a value that is neither
  nullish nor an array has no \<^verbatim>\<open>find\<close>, and the call throws.
\<close>

definition is_failed :: "json \<Rightarrow> bool" where
  "is_failed f = (field f ''state'' = Some (JStr ''Failed'') \<or> truthy_opt (field f ''error''))"

definition find_failed :: "json option \<Rightarrow> thrown + json option" where
  "find_failed files =
     (case files of
        None \<Rightarrow> Inr None
      | Some JNull \<Rightarrow> Inr None
      | Some (JArr fs) \<Rightarrow> Inr (find is_failed fs)
      | Some _ \<Rightarrow> Inl TypeError)"

definition from_files :: "json \<Rightarrow> thrown + json option" where
  "from_files json =
     and_then (find_failed (opt_field (field json ''result'') ''files'')) (\<lambda>failed.
       if truthy_opt (opt_field failed ''error'') then Inr (opt_field failed ''error'')
       else if truthy_opt (opt_field failed ''problem'') then Inr (opt_field failed ''problem'')
       else if truthy_opt (field json ''code'') then
         and_then (opt_string (field json ''code'')) (\<lambda>code.
           Inr (Some (JStr (''Command failed ['' @ code @ '']''))))
       else Inr None)"

text \<open>
  \<^verbatim>\<open>buildHumanMessage\<close>. Priority 1 returns \<^verbatim>\<open>json.message\<close> as it is, or the template
  literal \<^verbatim>\<open>`${json.message} [${json.code}]`\<close>, which converts the message and then the
  code to strings.
\<close>

definition buildHumanMessage :: "json \<Rightarrow> thrown + json option" where
  "buildHumanMessage json =
     (if truthy_opt (field json ''message'') then
        (if truthy_opt (field json ''code'') then
           and_then (opt_string (field json ''message'')) (\<lambda>msg.
           and_then (opt_string (field json ''code'')) (\<lambda>code.
             Inr (Some (JStr (msg @ '' ['' @ code @ '']'')))))
         else Inr (field json ''message''))
      else
        and_then (from_messages (opt_field (field json ''result'') ''messages'')) (\<lambda>found.
          case found of Some m \<Rightarrow> Inr (Some m) | None \<Rightarrow> from_files json))"

section \<open>The process invoker\<close>

text \<open>
  How the child process of \<^verbatim>\<open>runSfJson\<close> ends: it closes with an exit code (\<open>None\<close>
  when a signal killed it), with the result of \<^verbatim>\<open>JSON.parse\<close> on its standard output
  (\<open>None\<close> when the text is no JSON) and with its standard error text; or it cannot be
  started; or the caller's token cancels it.
\<close>

datatype process_outcome =
    Closed "number option" "json option" string
  | SpawnFailed string
  | Cancelled

text \<open>
  A promise is fulfilled, rejected, or never settles: an exception thrown inside the
  \<^verbatim>\<open>close\<close> handler leaves the handler before \<^verbatim>\<open>resolve\<close> or \<^verbatim>\<open>reject\<close> is called.
\<close>

datatype 'a settled =
    Fulfilled 'a
  | RejectedWith thrown
  | NeverSettles

definition plain_error :: "string \<Rightarrow> sf_cli_error" where
  "plain_error m =
     \<lparr>message = m, codeStr = None, ctx = None, status = None, exitCode = None,
      stderr = None, rawJson = None\<rparr>"

text \<open>
  \<^verbatim>\<open>new SfCliError(message, opts)\<close>: the constructor of \<^verbatim>\<open>Error\<close> converts the message
  to a string, which throws where \<open>to_string\<close> does, and \<^verbatim>\<open>Object.assign\<close> copies the
  options. The message is typed as a string, and is whatever \<^verbatim>\<open>buildHumanMessage\<close> or
  \<^verbatim>\<open>collectRetrieveProblems\<close> found in the payload.
\<close>

definition new_SfCliError :: "json \<Rightarrow> sf_cli_error \<Rightarrow> thrown + sf_cli_error" where
  "new_SfCliError msg opts = and_then (to_string msg) (\<lambda>printed. Inr (opts\<lparr>message := printed\<rparr>))"

definition show_code :: "number option \<Rightarrow> string" where
  "show_code code = (case code of None \<Rightarrow> ''null'' | Some n \<Rightarrow> number_to_string n)"

definition failed_with_exit :: "string list \<Rightarrow> number option \<Rightarrow> string \<Rightarrow> string" where
  "failed_with_exit args code err =
     (if err \<noteq> [] then err
      else ''sf '' @ join '' '' args @ '' failed with exit '' @ show_code code)"

definition nullish_to_undefined :: "json option \<Rightarrow> json option" where
  "nullish_to_undefined v = (case v of Some JNull \<Rightarrow> None | _ \<Rightarrow> v)"

text \<open>
  \<^verbatim>\<open>tryParse()\<close> followed by \<^verbatim>\<open>if (json)\<close>: the parsed value if it is truthy; and
  \<^verbatim>\<open>buildHumanMessage(json) || fallback\<close>.
\<close>

definition if_json :: "json option \<Rightarrow> json option" where
  "if_json parsed =
     (case parsed of None \<Rightarrow> None | Some json \<Rightarrow> if truthy json then Some json else None)"

definition or_text :: "json option \<Rightarrow> string \<Rightarrow> json" where
  "or_text m fallback =
     (case m of None \<Rightarrow> JStr fallback | Some v \<Rightarrow> if truthy v then v else JStr fallback)"

text \<open>
  \<^verbatim>\<open>reject(new SfCliError(buildHumanMessage(json) || fallback, opts))\<close> inside the handler
  of \<^verbatim>\<open>close\<close>: when \<^verbatim>\<open>buildHumanMessage\<close> or the constructor throws, the handler is left
  and the promise stays pending.
\<close>

definition reject_with_message :: "json \<Rightarrow> string \<Rightarrow> sf_cli_error \<Rightarrow> json settled" where
  "reject_with_message json fallback opts =
     (case and_then (buildHumanMessage json) (\<lambda>m. new_SfCliError (or_text m fallback) opts) of
        Inl e \<Rightarrow> NeverSettles
      | Inr failure \<Rightarrow> RejectedWith (SfCliError failure))"

text \<open>The handler of \<^verbatim>\<open>close\<close>, together with those of \<^verbatim>\<open>error\<close> and of the cancellation.\<close>

definition runSfJson :: "string list \<Rightarrow> process_outcome \<Rightarrow> json settled" where
  "runSfJson args outcome =
     (case outcome of
        Cancelled \<Rightarrow> RejectedWith (SfCliError (plain_error ''Operation cancelled''))
      | SpawnFailed e \<Rightarrow> RejectedWith (SfCliError (plain_error e))
      | Closed code parsed err \<Rightarrow>
          if code \<noteq> Some 0 then
            (case if_json parsed of
               Some json \<Rightarrow>
                 reject_with_message json (failed_with_exit args code err)
                   \<lparr>message = [],
                    codeStr = field json ''code'',
                    ctx = field json ''context'',
                    status = field json ''status'',
                    exitCode = (case code of
                                  Some n \<Rightarrow> Some (JNum n)
                                | None \<Rightarrow> nullish_to_undefined (field json ''exitCode'')),
                    stderr = Some err,
                    rawJson = Some json\<rparr>
             | None \<Rightarrow>
                 RejectedWith (SfCliError
                   ((plain_error (failed_with_exit args code err))
                      \<lparr>exitCode := map_option JNum code, stderr := Some err\<rparr>)))
          else
            (case if_json parsed of
               None \<Rightarrow>
                 RejectedWith (SfCliError
                   (plain_error (''Invalid JSON from sf '' @ join '' '' args)))
             | Some json \<Rightarrow>
                (case field json ''status'' of
                   Some (JNum n) \<Rightarrow>
                     if n \<noteq> 0 then
                       reject_with_message json ''Command failed''
                         \<lparr>message = [],
                          codeStr = field json ''code'',
                          ctx = field json ''context'',
                          status = field json ''status'',
                          exitCode = None,
                          stderr = Some err,
                          rawJson = Some json\<rparr>
                     else Fulfilled json
                 | _ \<Rightarrow> Fulfilled json)))"

section \<open>Retrieval and its problems\<close>

text \<open>
  One entry of \<^verbatim>\<open>result.messages\<close> and of \<^verbatim>\<open>result.files\<close> in \<^verbatim>\<open>collectRetrieveProblems\<close>.
  The label of a file is the template literal \<^verbatim>\<open>`${f.type} ${f.fullName}`\<close>, which is
  evaluated before \<^verbatim>\<open>`${f.error} [${label}]`\<close>.
\<close>

definition message_problem :: "json \<Rightarrow> thrown + json list" where
  "message_problem m =
     (if truthy_opt (field m ''problem'') then
        (if truthy_opt (field m ''fileName'') then
           and_then (opt_string (field m ''problem'')) (\<lambda>problem_text.
           and_then (opt_string (field m ''fileName'')) (\<lambda>file_name.
             Inr [JStr (problem_text @ '' ('' @ file_name @ '')'')]))
         else Inr (case field m ''problem'' of None \<Rightarrow> [] | Some p \<Rightarrow> [p]))
      else Inr [])"

definition file_problem :: "json \<Rightarrow> thrown + json list" where
  "file_problem f =
     (if field f ''state'' = Some (JStr ''Failed'') \<and> truthy_opt (field f ''error'') then
        (if truthy_opt (field f ''fullName'') \<and> truthy_opt (field f ''type'') then
           and_then (opt_string (field f ''type'')) (\<lambda>type_name.
           and_then (opt_string (field f ''fullName'')) (\<lambda>full_name.
           and_then (opt_string (field f ''error'')) (\<lambda>error_text.
             Inr [JStr (error_text @ '' ['' @ type_name @ '' '' @ full_name @ '']'')])))
         else Inr (case field f ''error'' of None \<Rightarrow> [] | Some e \<Rightarrow> [e]))
      else Inr [])"

text \<open>A \<^verbatim>\<open>for\<close> loop that pushes what its body finds, and ends when the body throws.\<close>

fun collect :: "(json \<Rightarrow> thrown + json list) \<Rightarrow> json list \<Rightarrow> thrown + json list" where
  "collect body [] = Inr []"
| "collect body (x # xs) =
     (case body x of
        Inl e \<Rightarrow> Inl e
      | Inr found \<Rightarrow>
          (case collect body xs of Inl e \<Rightarrow> Inl e | Inr others \<Rightarrow> Inr (found @ others)))"

definition messages_problems :: "json option \<Rightarrow> thrown + json list" where
  "messages_problems msgs =
     (case msgs of
        Some (JArr ms) \<Rightarrow> collect message_problem ms
      | Some (JStr s) \<Rightarrow> if trim s \<noteq> [] then Inr [JStr (trim s)] else Inr []
      | _ \<Rightarrow> Inr [])"

text \<open>
  \<^verbatim>\<open>for (const f of files)\<close> with \<^verbatim>\<open>files = json.result?.files ?? []\<close>: a string is
  iterated character by character and no character has a state; a number, a boolean
  or an object is not iterable.
\<close>

definition files_problems :: "json option \<Rightarrow> thrown + json list" where
  "files_problems files =
     (case files of
        None \<Rightarrow> Inr []
      | Some JNull \<Rightarrow> Inr []
      | Some (JArr fs) \<Rightarrow> collect file_problem fs
      | Some (JStr s) \<Rightarrow> Inr []
      | Some _ \<Rightarrow> Inl TypeError)"

definition collectRetrieveProblems :: "json \<Rightarrow> thrown + json list" where
  "collectRetrieveProblems json =
     and_then (messages_problems (opt_field (field json ''result'') ''messages'')) (\<lambda>from_msgs.
     and_then (files_problems (opt_field (field json ''result'') ''files'')) (\<lambda>from_fls.
     and_then (buildHumanMessage json) (\<lambda>top_msg.
       if truthy_opt top_msg \<and> from_msgs @ from_fls = []
       then Inr (case top_msg of None \<Rightarrow> [] | Some t \<Rightarrow> [t])
       else Inr (from_msgs @ from_fls))))"

text \<open>
  \<^verbatim>\<open>retrieveSelectedFile\<close> up to its success notification: \<open>Fulfilled\<close> carries the payload
  with which the function goes on to open the retrieved file. What the function throws
  rejects its promise.
\<close>

definition retrieveSelectedFile ::
    "string option \<Rightarrow> string \<Rightarrow> string \<Rightarrow> process_outcome \<Rightarrow> json settled" where
  "retrieveSelectedFile workspaceFolder metadataType itemName outcome =
     (case workspaceFolder of
        None \<Rightarrow> RejectedWith (PlainError ''No workspace folder open'')
      | Some cwd \<Rightarrow>
         (case runSfJson [''project'', ''retrieve'', ''start'', ''--metadata'',
                          metadataType @ '':'' @ itemName] outcome of
            Fulfilled result \<Rightarrow>
              (case collectRetrieveProblems result of
                 Inl e \<Rightarrow> RejectedWith e
               | Inr [] \<Rightarrow> Fulfilled result
               | Inr (first # rest) \<Rightarrow>
                   (case new_SfCliError first ((plain_error [])\<lparr>rawJson := Some result\<rparr>) of
                      Inl e \<Rightarrow> RejectedWith e
                    | Inr failure \<Rightarrow> RejectedWith (SfCliError failure)))
          | RejectedWith e \<Rightarrow> RejectedWith e
          | NeverSettles \<Rightarrow> NeverSettles))"

section \<open>The cache store\<close>

subsection \<open>Entries, settings and the file system\<close>

text \<open>
  \<^verbatim>\<open>CachedMetadataTypes\<close> and \<^verbatim>\<open>CachedMetadataItems\<close>. Both interfaces have \<^verbatim>\<open>orgId\<close> and
  the optional \<^verbatim>\<open>ts\<close>, a time in milliseconds; times are integers, as \<^verbatim>\<open>Date.now()\<close>
  returns them.
\<close>

record cache_entry =
  orgId :: string
  ts :: "int option"

record cached_metadata_types = cache_entry +
  metadataTypes :: json

record cached_metadata_items = cache_entry +
  metadataType :: string
  items :: json

text \<open>
  A number that is the result of arithmetic: a whole number, or \<^verbatim>\<open>NaN\<close>.
  \<^verbatim>\<open>Math.max\<close> and \<^verbatim>\<open>Math.min\<close> return \<^verbatim>\<open>NaN\<close> when an argument is \<^verbatim>\<open>NaN\<close>, a
  product with \<^verbatim>\<open>NaN\<close> is \<^verbatim>\<open>NaN\<close>, and every comparison with \<^verbatim>\<open>NaN\<close> is false.
\<close>

datatype js_number = Finite int | NaN

definition math_max :: "js_number \<Rightarrow> js_number \<Rightarrow> js_number" where
  "math_max a b =
     (case (a, b) of (Finite x, Finite y) \<Rightarrow> Finite (max x y) | _ \<Rightarrow> NaN)"

definition math_min :: "js_number \<Rightarrow> js_number \<Rightarrow> js_number" where
  "math_min a b =
     (case (a, b) of (Finite x, Finite y) \<Rightarrow> Finite (min x y) | _ \<Rightarrow> NaN)"

definition multiply :: "js_number \<Rightarrow> int \<Rightarrow> js_number" where
  "multiply a k = (case a of Finite x \<Rightarrow> Finite (x * k) | NaN \<Rightarrow> NaN)"

definition js_less :: "int \<Rightarrow> js_number \<Rightarrow> bool" where
  "js_less x b = (case b of Finite y \<Rightarrow> x < y | NaN \<Rightarrow> False)"

text \<open>
  The settings of \<^verbatim>\<open>nakodx-file-retriever\<close>; \<open>None\<close> is a setting the user has not
  configured, for which \<^verbatim>\<open>config.get\<close> returns the default it is given. The setting
  \<^verbatim>\<open>cacheTtlDays\<close> is declared as an integer, but \<^verbatim>\<open>config.get\<close> returns whatever value
  the settings file holds, and \<^verbatim>\<open>applyConfigSettings\<close> applies \<^verbatim>\<open>Number\<close> to it. A
  configured value is given by what \<^verbatim>\<open>Number\<close> makes of it: \<open>WholeNumber n\<close> is a value
  that \<^verbatim>\<open>Number\<close> turns into the integer \<open>n\<close> (the number itself, or the text \<^verbatim>\<open>"7"\<close>
  for 7), and \<open>NotANumber\<close> is a value that it turns into \<^verbatim>\<open>NaN\<close> (the text \<^verbatim>\<open>"x"\<close>,
  an object without members). Fractions of a day, whose milliseconds JavaScript rounds,
  are outside the model.
\<close>

datatype setting_value = WholeNumber int | NotANumber

definition Number :: "setting_value \<Rightarrow> js_number" where
  "Number v = (case v of WholeNumber n \<Rightarrow> Finite n | NotANumber \<Rightarrow> NaN)"

record settings =
  enableCache :: "bool option"
  cacheTtlDays :: "setting_value option"
  autoOpenAfterDownload :: "bool option"

definition cachingEnabled :: "settings \<Rightarrow> bool" where
  "cachingEnabled cfg = (case enableCache cfg of None \<Rightarrow> True | Some b \<Rightarrow> b)"

text \<open>
  A file is named by its directory and its name in the directory, which is what
  \<^verbatim>\<open>path.join(cacheDirectory, name)\<close> joins. The file system holds the existing
  directories, the files in the order \<^verbatim>\<open>readdir\<close> lists them, and the files on which
  \<^verbatim>\<open>unlink\<close> and \<^verbatim>\<open>writeFile\<close> fail. The text of a file is an item-list entry, or any
  other text: \<^verbatim>\<open>JSON.parse\<close> rejects it, or it belongs to the type-catalog partition,
  whose files no function below reads.
\<close>

type_synonym path = "string \<times> string"

datatype file_content =
    ItemsText cached_metadata_items
  | OtherText

record filesystem =
  dirs :: "string list"
  files :: "(path \<times> file_content) list"
  denied :: "path list"

definition path_join :: "string \<Rightarrow> string \<Rightarrow> path" where
  "path_join dir name = (dir, name)"

definition existsSync :: "filesystem \<Rightarrow> path \<Rightarrow> bool" where
  "existsSync fsys p = (map_of (files fsys) p \<noteq> None)"

definition readdir :: "filesystem \<Rightarrow> string \<Rightarrow> thrown + string list" where
  "readdir fsys dir =
     (if dir \<in> set (dirs fsys)
      then Inr (map (snd \<circ> fst) (filter (\<lambda>(p, c). fst p = dir) (files fsys)))
      else Inl IoError)"

definition unlink :: "filesystem \<Rightarrow> path \<Rightarrow> thrown + filesystem" where
  "unlink fsys p =
     (if p \<in> set (denied fsys) \<or> \<not> existsSync fsys p then Inl IoError
      else Inr (fsys\<lparr>files := AList.delete p (files fsys)\<rparr>))"

definition writeFile :: "filesystem \<Rightarrow> path \<Rightarrow> file_content \<Rightarrow> thrown + filesystem" where
  "writeFile fsys p c =
     (if p \<in> set (denied fsys) \<or> fst p \<notin> set (dirs fsys) then Inl IoError
      else Inr (fsys\<lparr>files := AList.update p c (files fsys)\<rparr>))"

definition readFile :: "filesystem \<Rightarrow> path \<Rightarrow> thrown + file_content" where
  "readFile fsys p = (case map_of (files fsys) p of None \<Rightarrow> Inl IoError | Some c \<Rightarrow> Inr c)"

subsection \<open>Calls in progress\<close>

text \<open>
  What a finished call of \<^verbatim>\<open>getMetadataItems\<close> gave its caller, and where an unfinished
  one is suspended. The promise of a fetch is named by the number of the call that
  started the fetch.
\<close>

datatype result = Returned json | Threw thrown

datatype pc =
    AwaitOrg
  | AwaitDisk
  | Fetching
  | Saving cached_metadata_items
  | Hung
  | Settled result
  | Joined
  | Done result

text \<open>
  The locals of a call: \<^verbatim>\<open>metadataType\<close>, \<^verbatim>\<open>cachingEnabled\<close>, \<^verbatim>\<open>currentOrgId\<close>, and the
  promise the call awaits and returns: its own \<^verbatim>\<open>fetchPromise\<close>, or the one it found in
  \<^verbatim>\<open>inflightItems\<close>. \<open>Fetching\<close>: the child process runs. \<open>Saving\<close>: the fetch awaits
  \<^verbatim>\<open>saveMetadataItemsToDisk\<close>. \<open>Hung\<close>: the \<^verbatim>\<open>close\<close> handler threw, and the promise stays
  pending. \<open>Settled\<close>: \<^verbatim>\<open>fetchPromise\<close> is settled and the \<^verbatim>\<open>finally\<close> block of the call has
  not run yet. \<open>Joined\<close>: the call has returned the promise of another call.
\<close>

record task =
  t_metadataType :: string
  t_cachingEnabled :: bool
  t_currentOrgId :: "string option"
  t_promise :: "nat option"
  t_pc :: pc

subsection \<open>The globals of the extension and its environment\<close>

text \<open>
  The module variables \<^verbatim>\<open>TTL_MS\<close>, \<^verbatim>\<open>metadataTypesCache\<close>, \<^verbatim>\<open>metadataItemsCache\<close> (a
  \<^verbatim>\<open>Map\<close>, which keeps insertion order), \<^verbatim>\<open>cacheDirectory\<close> (\<open>None\<close> until
  \<^verbatim>\<open>initializeCacheDirectory\<close> has run) and \<^verbatim>\<open>inflightItems\<close>; then the environment: the
  settings, the file system, \<^verbatim>\<open>Date.now()\<close>, the workspace folder, the storage path of
  the extension, the calls of \<^verbatim>\<open>getMetadataItems\<close> in progress and the argument lists
  of the processes they have spawned.
\<close>

record world =
  TTL_MS :: js_number
  metadataTypesCache :: "cached_metadata_types option"
  metadataItemsCache :: "(string \<times> cached_metadata_items) list"
  cacheDirectory :: "string option"
  inflightItems :: "string \<rightharpoonup> nat"
  config :: settings
  fs :: filesystem
  clock :: int
  workspaceFolder :: "string option"
  globalStoragePath :: string
  tasks :: "nat \<rightharpoonup> task"
  spawned :: "(nat \<times> string list) list"

subsection \<open>Paths and freshness\<close>

definition is_alnum :: "char \<Rightarrow> bool" where
  "is_alnum c =
     (c \<in> set ''abcdefghijklmnopqrstuvwxyzABCDEFGHIJKLMNOPQRSTUVWXYZ0123456789'')"

definition safeMetadataType :: "string \<Rightarrow> string" where
  "safeMetadataType t = map (\<lambda>c. if is_alnum c then c else CHR ''_'') t"

definition getMetadataTypesCachePath :: "string \<Rightarrow> string \<Rightarrow> path" where
  "getMetadataTypesCachePath dir org = path_join dir (''metadata-types-'' @ org @ ''.json'')"

definition getMetadataItemsCachePath :: "string \<Rightarrow> string \<Rightarrow> string \<Rightarrow> path" where
  "getMetadataItemsCachePath dir org t =
     path_join dir (''metadata-items-'' @ org @ ''-'' @ safeMetadataType t @ ''.json'')"

text \<open>
  \<^verbatim>\<open>isFresh(ts)\<close>, with \<^verbatim>\<open>TTL_MS\<close> and \<^verbatim>\<open>Date.now()\<close> as arguments. \<^verbatim>\<open>!ts\<close> holds of
  \<^verbatim>\<open>undefined\<close> and of \<open>0\<close>.
\<close>

definition isFresh :: "js_number \<Rightarrow> int \<Rightarrow> int option \<Rightarrow> bool" where
  "isFresh ttl now t =
     (case t of
        None \<Rightarrow> True
      | Some v \<Rightarrow> if v = 0 then True else js_less (now - v) ttl)"

definition fresh_in :: "world \<Rightarrow> int option \<Rightarrow> bool" where
  "fresh_in w t = isFresh (TTL_MS w) (clock w) t"

definition cacheKey :: "string option \<Rightarrow> string \<Rightarrow> string option" where
  "cacheKey currentOrgId t =
     (case currentOrgId of
        None \<Rightarrow> None
      | Some org \<Rightarrow> if org = [] then None else Some (org @ '':'' @ t))"

subsection \<open>Loading and saving item lists\<close>

text \<open>
  The \<^verbatim>\<open>try\<close> of each function catches what the file system and \<^verbatim>\<open>JSON.parse\<close> throw,
  and also the TypeError of \<^verbatim>\<open>path.join\<close> on an undefined \<^verbatim>\<open>cacheDirectory\<close>.
\<close>

definition loadMetadataItemsFromDisk ::
    "world \<Rightarrow> string \<Rightarrow> string \<Rightarrow> cached_metadata_items option" where
  "loadMetadataItemsFromDisk w org t =
     (case cacheDirectory w of
        None \<Rightarrow> None
      | Some dir \<Rightarrow>
          if \<not> existsSync (fs w) (getMetadataItemsCachePath dir org t) then None
          else (case readFile (fs w) (getMetadataItemsCachePath dir org t) of
                  Inr (ItemsText parsed) \<Rightarrow> if fresh_in w (ts parsed) then Some parsed else None
                | _ \<Rightarrow> None))"

definition write_items :: "cached_metadata_items \<Rightarrow> world \<Rightarrow> world" where
  "write_items stamped w =
     (case cacheDirectory w of
        None \<Rightarrow> w
      | Some dir \<Rightarrow>
          (case writeFile (fs w)
                  (getMetadataItemsCachePath dir (orgId stamped) (metadataType stamped))
                  (ItemsText stamped) of
             Inl e \<Rightarrow> w
           | Inr fsys \<Rightarrow> w\<lparr>fs := fsys\<rparr>))"





subsection \<open>Settings and activation\<close>

definition dir_exists :: "filesystem \<Rightarrow> string \<Rightarrow> bool" where
  "dir_exists fsys dir = (dir \<in> set (dirs fsys))"

definition is_cache_file :: "string \<Rightarrow> bool" where
  "is_cache_file f = (prefix ''metadata-types-'' f \<or> prefix ''metadata-items-'' f)"

text \<open>The body of the purge loop: a failing \<^verbatim>\<open>unlinkSync\<close> is logged and the loop goes on.\<close>

definition purge_file :: "string \<Rightarrow> string \<Rightarrow> filesystem \<Rightarrow> filesystem" where
  "purge_file dir f fsys =
     (if is_cache_file f then
        (case unlink fsys (path_join dir f) of Inl e \<Rightarrow> fsys | Inr fsys' \<Rightarrow> fsys')
      else fsys)"

text \<open>
  \<^verbatim>\<open>Math.min(30, Math.max(1, Number(config.get('cacheTtlDays', 30))))\<close>, and
  \<^verbatim>\<open>applyConfigSettings\<close>, which first sets \<^verbatim>\<open>TTL_MS\<close> to the milliseconds of that many
  days.
\<close>

definition ttl_days :: "settings \<Rightarrow> js_number" where
  "ttl_days cfg =
     math_min (Finite 30)
       (math_max (Finite 1)
          (Number (case cacheTtlDays cfg of None \<Rightarrow> WholeNumber 30 | Some v \<Rightarrow> v)))"

definition applyConfigSettings :: "world \<Rightarrow> world" where
  "applyConfigSettings w =
     (let w1 = w\<lparr>TTL_MS := multiply (ttl_days (config w)) (24 * 60 * 60 * 1000)\<rparr> in
      if cachingEnabled (config w) then w1
      else
        (let w2 = w1\<lparr>metadataTypesCache := None, metadataItemsCache := []\<rparr> in
         case cacheDirectory w of
           None \<Rightarrow> w2
         | Some dir \<Rightarrow>
             if dir \<noteq> [] \<and> dir_exists (fs w) dir then
               (case readdir (fs w) dir of
                  Inl e \<Rightarrow> w2
                | Inr names \<Rightarrow> w2\<lparr>fs := fold (purge_file dir) names (fs w)\<rparr>)
             else w2))"



subsection \<open>Clearing the item lists of the current org\<close>

datatype report = NoOrgId | Cleared nat nat | NothingFound | ClearFailed

definition is_org_items_file :: "string \<Rightarrow> string \<Rightarrow> bool" where
  "is_org_items_file org file =
     (prefix (''metadata-items-'' @ org @ ''-'') file \<and> suffix ''.json'' file)"

text \<open>
  The loop over the directory: the first failing \<^verbatim>\<open>unlink\<close> leaves the loop for the
  \<^verbatim>\<open>catch\<close> of the function. The result is the file system, \<^verbatim>\<open>diskDeleted\<close>, and whether
  the loop threw.
\<close>

fun unlink_org_files ::
    "string \<Rightarrow> string \<Rightarrow> string list \<Rightarrow> filesystem \<Rightarrow> nat \<Rightarrow> filesystem \<times> nat \<times> bool" where
  "unlink_org_files dir org [] fsys n = (fsys, n, False)"
| "unlink_org_files dir org (file # rest) fsys n =
     (if is_org_items_file org file then
        (case unlink fsys (path_join dir file) of
           Inl e \<Rightarrow> (fsys, n, True)
         | Inr fsys' \<Rightarrow> unlink_org_files dir org rest fsys' (n + 1))
      else unlink_org_files dir org rest fsys n)"

definition delete_org_entries ::
    "string \<Rightarrow> (string \<times> cached_metadata_items) list \<Rightarrow> (string \<times> cached_metadata_items) list" where
  "delete_org_entries org cache =
     fold (\<lambda>(key, cached) m. if orgId cached = org then AList.delete key m else m) cache cache"

definition found_report :: "nat \<Rightarrow> nat \<Rightarrow> report" where
  "found_report memDeleted diskDeleted =
     (if memDeleted + diskDeleted > 0 then Cleared memDeleted diskDeleted else NothingFound)"

text \<open>
  \<^verbatim>\<open>deleteItemsCache\<close>, given what \<^verbatim>\<open>getCurrentOrgId\<close> resolved to, and run without another
  call in between its steps.
\<close>

definition deleteItemsCache :: "string option \<Rightarrow> world \<Rightarrow> report \<times> world" where
  "deleteItemsCache currentOrgId w =
     (case currentOrgId of
        None \<Rightarrow> (NoOrgId, w)
      | Some org \<Rightarrow>
          if org = [] then (NoOrgId, w)
          else
            (let memDeleted = length (filter (\<lambda>(key, cached). orgId cached = org)
                                        (metadataItemsCache w));
                 w1 = w\<lparr>metadataItemsCache := delete_org_entries org (metadataItemsCache w)\<rparr>
             in case cacheDirectory w of
                  None \<Rightarrow> (found_report memDeleted 0, w1)
                | Some dir \<Rightarrow>
                    if dir_exists (fs w) dir then
                      (case readdir (fs w) dir of
                         Inl e \<Rightarrow> (ClearFailed, w1)
                       | Inr names \<Rightarrow>
                           (case unlink_org_files dir org names (fs w) 0 of
                              (fsys, diskDeleted, threw) \<Rightarrow>
                                (if threw then ClearFailed
                                 else found_report memDeleted diskDeleted,
                                 w1\<lparr>fs := fsys\<rparr>)))
                    else (found_report memDeleted 0, w1)))"

section \<open>The request coalescer\<close>

text \<open>
  A call of \<^verbatim>\<open>getMetadataItems\<close> runs from one \<^verbatim>\<open>await\<close> to the next without
  interruption. An event is the start of a call or the completion of what a call
  awaits; between two events of one call, events of other calls may happen. The events
  of a call, which is named by a number: it starts, for a metadata type;
  \<^verbatim>\<open>getCurrentOrgId\<close> resolves, to an org or to none; \<^verbatim>\<open>loadMetadataItemsFromDisk\<close>
  completes, the file being read at that moment; the process of its fetch ends;
  \<^verbatim>\<open>saveMetadataItemsToDisk\<close> completes, the file being written at that moment; the call
  resumes after \<^verbatim>\<open>await fetchPromise\<close>, or the caller of a shared promise receives its
  result. The events of the environment: the settings change, the command
  \<^verbatim>\<open>deleteItemsCache\<close> runs, time passes.
\<close>

datatype event =
    Call nat string
  | OrgResolved nat "string option"
  | DiskLoaded nat
  | ProcessEnded nat process_outcome
  | DiskSaved nat
  | Resumed nat
  | ConfigChanged settings
  | ItemsCacheCleared "string option"
  | Advance nat

definition task_key :: "task \<Rightarrow> string option" where
  "task_key t = cacheKey (t_currentOrgId t) (t_metadataType t)"

definition set_pc :: "nat \<Rightarrow> task \<Rightarrow> pc \<Rightarrow> world \<Rightarrow> world" where
  "set_pc n t p w = w\<lparr>tasks := (tasks w)(n \<mapsto> t\<lparr>t_pc := p\<rparr>)\<rparr>"

definition list_metadata_args :: "string \<Rightarrow> string list" where
  "list_metadata_args t = [''org'', ''list'', ''metadata'', ''-m'', t]"

text \<open>
  \<^verbatim>\<open>getMetadataItems\<close> (extension.ts, lines 478 to 528) in the pieces between its
  suspension points. First the fetch starts (lines 504 to 522): \<^verbatim>\<open>runSfJson\<close> spawns the
  process with \<^verbatim>\<open>--json\<close> added, and the promise is registered if the call has a key and
  caching is enabled.
\<close>

definition start_fetch :: "nat \<Rightarrow> task \<Rightarrow> world \<Rightarrow> world" where
  "start_fetch n t w =
     (let w1 = w\<lparr>spawned := spawned w @ [(n, list_metadata_args (t_metadataType t) @ [''--json''])],
                 tasks := (tasks w)(n \<mapsto> t\<lparr>t_promise := Some n, t_pc := Fetching\<rparr>)\<rparr>
      in case task_key t of
           None \<Rightarrow> w1
         | Some k \<Rightarrow>
             if t_cachingEnabled t then w1\<lparr>inflightItems := (inflightItems w)(k \<mapsto> n)\<rparr>
             else w1)"

text \<open>
  Line 502,
  \<^verbatim>\<open>if (cacheKey && inflightItems.has(cacheKey)) return inflightItems.get(cacheKey)!\<close>,
  then the fetch.
\<close>

definition coalesce_or_fetch :: "nat \<Rightarrow> task \<Rightarrow> world \<Rightarrow> world" where
  "coalesce_or_fetch n t w =
     (case task_key t of
        None \<Rightarrow> start_fetch n t w
      | Some k \<Rightarrow>
          (case inflightItems w k of
             Some owner \<Rightarrow> set_pc n (t\<lparr>t_promise := Some owner\<rparr>) Joined w
           | None \<Rightarrow> start_fetch n t w))"

text \<open>
  After \<^verbatim>\<open>await getCurrentOrgId()\<close> (lines 486 to 494): the key, the look into the memory
  cache, and the start of the look on disk; without a key or with caching disabled the
  call goes straight to line 502.
\<close>

definition after_org :: "nat \<Rightarrow> task \<Rightarrow> world \<Rightarrow> world" where
  "after_org n t w =
     (case task_key t of
        None \<Rightarrow> coalesce_or_fetch n t w
      | Some k \<Rightarrow>
          if t_cachingEnabled t then
            (case map_of (metadataItemsCache w) k of
               Some cached \<Rightarrow>
                 if fresh_in w (ts cached) then set_pc n t (Done (Returned (items cached))) w
                 else set_pc n t AwaitDisk w
             | None \<Rightarrow> set_pc n t AwaitDisk w)
          else coalesce_or_fetch n t w)"

text \<open>
  After \<^verbatim>\<open>await loadMetadataItemsFromDisk(...)\<close> (lines 495 to 502): a fresh entry on disk
  is put into the memory cache and returned; otherwise the call goes on to line 502.
\<close>

definition after_disk :: "nat \<Rightarrow> task \<Rightarrow> world \<Rightarrow> world" where
  "after_disk n t w =
     (case (t_currentOrgId t, task_key t) of
        (Some org, Some k) \<Rightarrow>
          (case loadMetadataItemsFromDisk w org (t_metadataType t) of
             Some diskCache \<Rightarrow>
               set_pc n t (Done (Returned (items diskCache)))
                 (w\<lparr>metadataItemsCache := AList.update k diskCache (metadataItemsCache w)\<rparr>)
           | None \<Rightarrow> coalesce_or_fetch n t w)
      | _ \<Rightarrow> coalesce_or_fetch n t w)"

text \<open>
  After \<^verbatim>\<open>await runSfJson(...)\<close> inside the fetch (lines 505 to 516):
  \<^verbatim>\<open>json.result ?? []\<close>; with caching enabled and a key, the entry stamped with the time
  is put into the memory cache and \<^verbatim>\<open>saveMetadataItemsToDisk\<close> is started, which stamps
  its copy again.
\<close>

definition result_or_empty :: "json \<Rightarrow> json" where
  "result_or_empty json =
     (case field json ''result'' of None \<Rightarrow> JArr [] | Some JNull \<Rightarrow> JArr [] | Some r \<Rightarrow> r)"

definition after_process :: "nat \<Rightarrow> task \<Rightarrow> process_outcome \<Rightarrow> world \<Rightarrow> world" where
  "after_process n t outcome w =
     (case runSfJson (list_metadata_args (t_metadataType t)) outcome of
        Fulfilled json \<Rightarrow>
          (case (t_currentOrgId t, task_key t) of
             (Some org, Some k) \<Rightarrow>
               if t_cachingEnabled t then
                 (let cacheData = \<lparr>orgId = org, ts = Some (clock w),
                                   metadataType = t_metadataType t,
                                   items = result_or_empty json\<rparr>
                  in set_pc n t (Saving (cacheData\<lparr>ts := Some (clock w)\<rparr>))
                       (w\<lparr>metadataItemsCache :=
                            AList.update k cacheData (metadataItemsCache w)\<rparr>))
               else set_pc n t (Settled (Returned (result_or_empty json))) w
           | _ \<Rightarrow> set_pc n t (Settled (Returned (result_or_empty json))) w)
      | RejectedWith e \<Rightarrow> set_pc n t (Settled (Threw e)) w
      | NeverSettles \<Rightarrow> set_pc n t Hung w)"

text \<open>
  The call resumes after \<^verbatim>\<open>await fetchPromise\<close> (lines 523 to 527): its \<^verbatim>\<open>finally\<close> block
  runs. A call that returned the promise of another call is done with the result of
  that promise.
\<close>

definition settled_result :: "pc \<Rightarrow> result option" where
  "settled_result p = (case p of Settled r \<Rightarrow> Some r | Done r \<Rightarrow> Some r | _ \<Rightarrow> None)"

definition resume :: "nat \<Rightarrow> task \<Rightarrow> world \<Rightarrow> world" where
  "resume n t w =
     (case t_pc t of
        Settled r \<Rightarrow>
          (case task_key t of
             None \<Rightarrow> set_pc n t (Done r) w
           | Some k \<Rightarrow>
               if t_cachingEnabled t
               then (set_pc n t (Done r) w)\<lparr>inflightItems := (inflightItems w)(k := None)\<rparr>
               else set_pc n t (Done r) w)
      | Joined \<Rightarrow>
          (case t_promise t of
             None \<Rightarrow> w
           | Some owner \<Rightarrow>
               (case tasks w owner of
                  None \<Rightarrow> w
                | Some ot \<Rightarrow>
                    (case settled_result (t_pc ot) of
                       None \<Rightarrow> w
                     | Some r \<Rightarrow> set_pc n t (Done r) w)))
      | _ \<Rightarrow> w)"

text \<open>
  The start of a call (lines 479 to 485): the setting \<^verbatim>\<open>enableCache\<close> is read, a missing
  workspace folder ends the call, and \<^verbatim>\<open>getCurrentOrgId\<close> is awaited.
\<close>

definition new_call :: "nat \<Rightarrow> string \<Rightarrow> world \<Rightarrow> world" where
  "new_call n t w =
     (let call = \<lparr>t_metadataType = t, t_cachingEnabled = cachingEnabled (config w),
                  t_currentOrgId = None, t_promise = None, t_pc = AwaitOrg\<rparr>
      in case workspaceFolder w of
           None \<Rightarrow> set_pc n call (Done (Threw (PlainError ''No workspace folder open''))) w
         | Some cwd \<Rightarrow> set_pc n call AwaitOrg w)"

text \<open>
  The listener of \<^verbatim>\<open>onDidChangeConfiguration\<close> (lines 360 to 364) applies the settings when
  \<^verbatim>\<open>cacheTtlDays\<close> or \<^verbatim>\<open>enableCache\<close> is affected.
\<close>

definition affects_cache :: "settings \<Rightarrow> settings \<Rightarrow> bool" where
  "affects_cache old new =
     (cacheTtlDays old \<noteq> cacheTtlDays new \<or> enableCache old \<noteq> enableCache new)"

fun step :: "event \<Rightarrow> world \<Rightarrow> world" where
  "step (Call n t) w = (case tasks w n of None \<Rightarrow> new_call n t w | Some u \<Rightarrow> w)"
| "step (OrgResolved n org) w =
     (case tasks w n of
        None \<Rightarrow> w
      | Some t \<Rightarrow> if t_pc t = AwaitOrg then after_org n (t\<lparr>t_currentOrgId := org\<rparr>) w else w)"
| "step (DiskLoaded n) w =
     (case tasks w n of
        None \<Rightarrow> w
      | Some t \<Rightarrow> if t_pc t = AwaitDisk then after_disk n t w else w)"
| "step (ProcessEnded n outcome) w =
     (case tasks w n of
        None \<Rightarrow> w
      | Some t \<Rightarrow> if t_pc t = Fetching then after_process n t outcome w else w)"
| "step (DiskSaved n) w =
     (case tasks w n of
        None \<Rightarrow> w
      | Some t \<Rightarrow>
          (case t_pc t of
             Saving stamped \<Rightarrow>
               set_pc n t (Settled (Returned (items stamped))) (write_items stamped w)
           | _ \<Rightarrow> w))"
| "step (Resumed n) w = (case tasks w n of None \<Rightarrow> w | Some t \<Rightarrow> resume n t w)"
| "step (ConfigChanged cfg) w =
     (if affects_cache (config w) cfg then applyConfigSettings (w\<lparr>config := cfg\<rparr>)
      else w\<lparr>config := cfg\<rparr>)"
| "step (ItemsCacheCleared org) w = snd (deleteItemsCache org w)"
| "step (Advance d) w = w\<lparr>clock := clock w + int d\<rparr>"

definition run :: "event list \<Rightarrow> world \<Rightarrow> world" where
  "run es w = fold step es w"

definition idle :: "world \<Rightarrow> bool" where
  "idle w = (tasks w = Map.empty \<and> inflightItems w = Map.empty \<and> spawned w = [])"

section \<open>What the coalescer maintains\<close>

text \<open>
  The notions in which the properties of the coalescer are stated. A call is in its
  fetch from the start of its process until its \<^verbatim>\<open>finally\<close> block has run. A call
  fetches for a key when its process runs, it had caching enabled and the key is its
  cache key.
\<close>

definition in_fetch :: "pc \<Rightarrow> bool" where
  "in_fetch p =
     (case p of Fetching \<Rightarrow> True | Saving c \<Rightarrow> True | Hung \<Rightarrow> True | Settled r \<Rightarrow> True
      | _ \<Rightarrow> False)"

definition fetching_for :: "world \<Rightarrow> nat \<Rightarrow> string \<Rightarrow> bool" where
  "fetching_for w n k =
     (case tasks w n of
        None \<Rightarrow> False
      | Some t \<Rightarrow> t_pc t = Fetching \<and> t_cachingEnabled t \<and> task_key t = Some k)"

definition registered :: "(nat \<rightharpoonup> task) \<Rightarrow> (string \<rightharpoonup> nat) \<Rightarrow> bool" where
  "registered T F =
     (\<forall>n k. F k = Some n \<longleftrightarrow>
        (\<exists>t. T n = Some t \<and> t_cachingEnabled t \<and> task_key t = Some k \<and> in_fetch (t_pc t)))"

definition shared_results :: "(nat \<rightharpoonup> task) \<Rightarrow> bool" where
  "shared_results T =
     (\<forall>n t owner r. T n = Some t \<and> t_promise t = Some owner \<and> t_pc t = Done r
        \<longrightarrow> (\<exists>ot. T owner = Some ot \<and> settled_result (t_pc ot) = Some r))"

definition own_promise :: "(nat \<rightharpoonup> task) \<Rightarrow> bool" where
  "own_promise T =
     (\<forall>n t. T n = Some t \<longrightarrow>
        (in_fetch (t_pc t) \<longrightarrow> t_promise t = Some n)
        \<and> (t_pc t = AwaitOrg \<or> t_pc t = AwaitDisk \<longrightarrow> t_promise t = None)
        \<and> (\<forall>owner. t_promise t = Some owner \<longrightarrow>
              (\<exists>ot. T owner = Some ot \<and> t_promise ot = Some owner)))"

definition spawned_by_owners :: "(nat \<rightharpoonup> task) \<Rightarrow> (nat \<times> string list) list \<Rightarrow> bool" where
  "spawned_by_owners T S =
     (distinct (map fst S)
      \<and> (\<forall>n. n \<in> fst ` set S \<longleftrightarrow> (\<exists>t. T n = Some t \<and> t_promise t = Some n)))"

definition coalesced :: "world \<Rightarrow> bool" where
  "coalesced w =
     (registered (tasks w) (inflightItems w) \<and> shared_results (tasks w)
      \<and> own_promise (tasks w) \<and> spawned_by_owners (tasks w) (spawned w))"

text \<open>
  The same four conditions on the calls, the in-flight map and the spawned processes
  alone; and a call that has not reached the coalescing check, or does not exist yet.
\<close>

definition inv3 ::
    "(nat \<rightharpoonup> task) \<Rightarrow> (string \<rightharpoonup> nat) \<Rightarrow> (nat \<times> string list) list \<Rightarrow> bool" where
  "inv3 T F S = (registered T F \<and> shared_results T \<and> own_promise T \<and> spawned_by_owners T S)"

definition waiting :: "(nat \<rightharpoonup> task) \<Rightarrow> nat \<Rightarrow> bool" where
  "waiting T n = (case T n of None \<Rightarrow> True | Some t \<Rightarrow> t_pc t = AwaitOrg \<or> t_pc t = AwaitDisk)"

section \<open>Example states\<close>

text \<open>
  A running extension with the default settings, an empty cache directory, and no call
  in progress; and the item list of one metadata type of the org \<^verbatim>\<open>00Dxx\<close>.
\<close>

definition default_settings :: settings where
  "default_settings = \<lparr>enableCache = None, cacheTtlDays = None, autoOpenAfterDownload = None\<rparr>"

definition empty_disk :: filesystem where
  "empty_disk = \<lparr>dirs = [''/g/cache''], files = [], denied = []\<rparr>"

definition started :: world where
  "started =
     \<lparr>TTL_MS = Finite (30 * 24 * 60 * 60 * 1000),
      metadataTypesCache = None,
      metadataItemsCache = [],
      cacheDirectory = Some ''/g/cache'',
      inflightItems = Map.empty,
      config = default_settings,
      fs = empty_disk,
      clock = 1700000000000,
      workspaceFolder = Some ''/w'',
      globalStoragePath = ''/g'',
      tasks = Map.empty,
      spawned = []\<rparr>"




definition caching_off :: settings where
  "caching_off = default_settings\<lparr>enableCache := Some False\<rparr>"





text \<open>
  Schedules of calls for the item list of \<^verbatim>\<open>ApexClass\<close> in the org \<^verbatim>\<open>00Dxx\<close>, with nothing
  cached. Three calls have passed their cache checks while the process of the first
  runs; then the process ends and the calls resume. Two calls are started, the process
  of the first fails and the first call ends before the org of the second is resolved.
  The cache is switched off in the settings while the process of a call runs, and a
  second call is made.
\<close>

definition items_payload :: json where
  "items_payload =
     JObj [(''status'', JNum 0), (''result'', JArr [JObj [(''fullName'', JStr ''Foo'')]])]"

definition three_callers :: "event list" where
  "three_callers =
     [Call 0 ''ApexClass'', Call 1 ''ApexClass'', Call 2 ''ApexClass'',
      OrgResolved 0 (Some ''00Dxx''), DiskLoaded 0,
      OrgResolved 1 (Some ''00Dxx''), DiskLoaded 1,
      OrgResolved 2 (Some ''00Dxx''), DiskLoaded 2]"

definition three_callers_end :: "event list" where
  "three_callers_end =
     [ProcessEnded 0 (Closed (Some 0) (Some items_payload) []), DiskSaved 0,
      Resumed 1, Resumed 0, Resumed 2]"

definition first_call_fails :: "event list" where
  "first_call_fails =
     [Call 0 ''ApexClass'', Call 1 ''ApexClass'',
      OrgResolved 0 (Some ''00Dxx''), DiskLoaded 0,
      ProcessEnded 0 (Closed (Some 1) None ''ERROR''), Resumed 0]"

definition second_call_fetches :: "event list" where
  "second_call_fetches =
     [OrgResolved 1 (Some ''00Dxx''), DiskLoaded 1,
      ProcessEnded 1 (Closed (Some 0) (Some items_payload) []), DiskSaved 1, Resumed 1]"

definition switched_off_in_flight :: "event list" where
  "switched_off_in_flight =
     [Call 0 ''ApexClass'', OrgResolved 0 (Some ''00Dxx''), DiskLoaded 0,
      ConfigChanged caching_off,
      Call 1 ''ApexClass'', OrgResolved 1 (Some ''00Dxx'')]"

section \<open>Properties of the result interpreter and of retrieval\<close>

lemma and_then_simps [simp]:
  "and_then (Inl e) f = Inl e" "and_then (Inr v) f = f v"
  by (simp_all add: and_then_def)

lemma truthy_opt_simps [simp]:
  "truthy_opt None = False" "truthy_opt (Some j) = truthy j"
  by (simp_all add: truthy_opt_def)

lemma opt_string_Some [simp]: "opt_string (Some j) = to_string j"
  by (simp add: opt_string_def)

lemma if_json_simps [simp]:
  "if_json None = None" "if_json (Some j) = (if truthy j then Some j else None)"
  by (simp_all add: if_json_def)

lemma opt_field_simps [simp]:
  "opt_field None k = None" "opt_field (Some j) k = field j k"
  by (simp_all add: opt_field_def)

lemma or_text_truthy [simp]: "truthy v \<Longrightarrow> or_text (Some v) fallback = v"
  by (simp add: or_text_def)

text \<open>
  C5: a retrieval that exits with code 0 and status 0, whose payload has no messages and
  lists one file with state \<^verbatim>\<open>Failed\<close>, an error \<open>e\<close>, a full name \<open>n\<close> and a type \<open>t\<close>,
  makes \<^verbatim>\<open>retrieveSelectedFile\<close> fail with the first collected problem, the message
  \<open>e [t n]\<close>, and with the whole payload attached as \<^verbatim>\<open>rawJson\<close>; a top-level message
  and code of the payload, when it has both, are taken to convert to strings. For the file
  \<^verbatim>\<open>{state:"Failed", error:"E1", fullName:"Foo", type:"ApexClass"}\<close> the message is
  \<^verbatim>\<open>E1 [ApexClass Foo]\<close>.
\<close>

theorem failed_file_reported:
  assumes st: "field p ''status'' = Some (JNum 0)"
    and res: "field p ''result'' = Some r"
    and msgs: "field r ''messages'' = None"
    and fls: "field r ''files'' = Some (JArr [f])"
    and f: "field f ''state'' = Some (JStr ''Failed'')" "field f ''error'' = Some (JStr e)" "e \<noteq> []"
           "field f ''fullName'' = Some (JStr n)" "n \<noteq> []" "field f ''type'' = Some (JStr t)" "t \<noteq> []"
    and top: "\<forall>m c. field p ''message'' = Some m \<and> truthy m \<and> field p ''code'' = Some c \<and> truthy c
                \<longrightarrow> (\<exists>s. to_string m = Inr s) \<and> (\<exists>s. to_string c = Inr s)"
  shows "retrieveSelectedFile (Some cwd) mt itemName (Closed (Some 0) (Some p) err) =
           RejectedWith (SfCliError
             \<lparr>message = e @ '' ['' @ t @ '' '' @ n @ '']'', codeStr = None, ctx = None,
              status = None, exitCode = None, stderr = None, rawJson = Some p\<rparr>)"
proof -
  obtain kvs where p: "p = JObj kvs" using res by (cases p) auto
  have run: "runSfJson args (Closed (Some 0) (Some p) err) = Fulfilled p" for args
    using st by (simp add: runSfJson_def p)
  have fp: "files_problems (Some (JArr [f])) = Inr [JStr (e @ '' ['' @ t @ '' '' @ n @ '']'')]"
    using f by (simp add: files_problems_def file_problem_def)
  have below: "from_messages (opt_field (field p ''result'') ''messages'') = Inr None"
    and "from_files p = Inr (Some (JStr e))"
    using res msgs fls f
    by (simp_all add: from_messages_def from_files_def find_failed_def is_failed_def)
  then have quiet: "\<not> truthy_opt (field p ''message'') \<Longrightarrow> \<exists>m. buildHumanMessage p = Inr m"
    by (simp add: buildHumanMessage_def)
  have bh: "\<exists>m. buildHumanMessage p = Inr m"
  proof (cases "truthy_opt (field p ''message'') \<and> truthy_opt (field p ''code'')")
    case True
    then obtain m c where mc: "field p ''message'' = Some m" "truthy m"
        "field p ''code'' = Some c" "truthy c"
      by (cases "field p ''message''"; cases "field p ''code''") auto
    with top obtain s1 s2 where "to_string m = Inr s1" "to_string c = Inr s2"
      by blast
    with mc show ?thesis by (simp add: buildHumanMessage_def)
  next
    case False
    then show ?thesis
      using quiet by (auto simp: buildHumanMessage_def)
  qed
  then obtain m where m: "buildHumanMessage p = Inr m" ..
  have "collectRetrieveProblems p = Inr [JStr (e @ '' ['' @ t @ '' '' @ n @ '']'')]"
    using res msgs fls fp m by (simp add: collectRetrieveProblems_def messages_problems_def)
  then show ?thesis
    by (simp add: retrieveSelectedFile_def run plain_error_def new_SfCliError_def)
qed

theorem failed_file_reported_witness:
  "retrieveSelectedFile (Some ''/w'') ''ApexClass'' ''Foo''
     (Closed (Some 0)
        (Some (JObj [(''status'', JNum 0),
                     (''result'', JObj [(''files'', JArr [JObj [(''state'', JStr ''Failed''),
                        (''error'', JStr ''E1''), (''fullName'', JStr ''Foo''),
                        (''type'', JStr ''ApexClass'')]])])])) [])
   = RejectedWith (SfCliError
       \<lparr>message = ''E1 [ApexClass Foo]'', codeStr = None, ctx = None, status = None,
        exitCode = None, stderr = None,
        rawJson = Some (JObj [(''status'', JNum 0),
                     (''result'', JObj [(''files'', JArr [JObj [(''state'', JStr ''Failed''),
                        (''error'', JStr ''E1''), (''fullName'', JStr ''Foo''),
                        (''type'', JStr ''ApexClass'')]])])])\<rparr>)"
  using failed_file_reported [where p = "JObj [(''status'', JNum 0),
                     (''result'', JObj [(''files'', JArr [JObj [(''state'', JStr ''Failed''),
                        (''error'', JStr ''E1''), (''fullName'', JStr ''Foo''),
                        (''type'', JStr ''ApexClass'')]])])]"
      and r = "JObj [(''files'', JArr [JObj [(''state'', JStr ''Failed''),
                        (''error'', JStr ''E1''), (''fullName'', JStr ''Foo''),
                        (''type'', JStr ''ApexClass'')]])]"
      and f = "JObj [(''state'', JStr ''Failed''),
                        (''error'', JStr ''E1''), (''fullName'', JStr ''Foo''),
                        (''type'', JStr ''ApexClass'')]"
      and e = "''E1''" and n = "''Foo''" and t = "''ApexClass''" and cwd = "''/w''"
      and mt = "''ApexClass''" and itemName = "''Foo''" and err = "[]"]
  by simp

text \<open>
  C4: for every payload whose top-level \<^verbatim>\<open>message\<close> is truthy (for a string: not empty),
  \<^verbatim>\<open>buildHumanMessage\<close> returns that message as it is when the top-level \<^verbatim>\<open>code\<close> is not
  truthy, and when the code is truthy too and \<open>s\<close> and \<open>c\<close> are the strings to which the
  message and the code convert (themselves, when they are strings), it returns
  \<open>s [c]\<close>. When the tool exits with code 0 and such a payload has a status that is not
  0, \<^verbatim>\<open>runSfJson\<close> rejects with an error whose message is the string of what
  \<^verbatim>\<open>buildHumanMessage\<close> returned; for
  \<^verbatim>\<open>{"status":1,"message":"INVALID_TYPE","code":"INVALID_TYPE"}\<close> the message is
  \<^verbatim>\<open>INVALID_TYPE [INVALID_TYPE]\<close>. An empty message is skipped, an empty code is not
  appended, and a message that does not convert to a string is not returned with the
  code, as the counterexample shows.
\<close>

theorem explicit_message_first:
  assumes "field p ''message'' = Some m" and "truthy m"
  shows "(\<not> truthy_opt (field p ''code'') \<longrightarrow> buildHumanMessage p = Inr (Some m))
       \<and> (\<forall>code s c. field p ''code'' = Some code \<and> truthy code
              \<and> to_string m = Inr s \<and> to_string code = Inr c \<longrightarrow>
            buildHumanMessage p = Inr (Some (JStr (s @ '' ['' @ c @ '']''))))
       \<and> (\<forall>s c. m = JStr s \<and> field p ''code'' = Some (JStr c) \<and> c \<noteq> [] \<longrightarrow>
            buildHumanMessage p = Inr (Some (JStr (s @ '' ['' @ c @ '']''))))
       \<and> (\<forall>n found shown. field p ''status'' = Some (JNum n) \<and> n \<noteq> 0
              \<and> buildHumanMessage p = Inr (Some found) \<and> to_string found = Inr shown \<longrightarrow>
            runSfJson args (Closed (Some 0) (Some p) err) =
              RejectedWith (SfCliError
                \<lparr>message = shown, codeStr = field p ''code'', ctx = field p ''context'',
                 status = Some (JNum n), exitCode = None, stderr = Some err,
                 rawJson = Some p\<rparr>))"
proof -
  obtain kvs where p: "p = JObj kvs" using assms(1) by (cases p) auto
  have plain: "\<not> truthy_opt (field p ''code'') \<longrightarrow> buildHumanMessage p = Inr (Some m)"
    using assms by (simp add: buildHumanMessage_def)
  have bracketed: "buildHumanMessage p = Inr (Some (JStr (s @ '' ['' @ c @ '']'')))"
    if "field p ''code'' = Some code" "truthy code" "to_string m = Inr s" "to_string code = Inr c"
    for code s c
    using assms that by (simp add: buildHumanMessage_def)
  have strings: "buildHumanMessage p = Inr (Some (JStr (s @ '' ['' @ c @ '']'')))"
    if "m = JStr s" "field p ''code'' = Some (JStr c)" "c \<noteq> []" for s c
    using bracketed [of "JStr c" s c] that by simp
  have found_truthy: "truthy found" if "buildHumanMessage p = Inr (Some found)" for found
  proof (cases "truthy_opt (field p ''code'')")
    case False
    with plain that assms(2) show ?thesis by simp
  next
    case True
    then obtain code where code: "field p ''code'' = Some code" "truthy code"
      by (cases "field p ''code''") auto
    show ?thesis
    proof (cases "to_string m")
      case (Inl e)
      with assms code that show ?thesis by (simp add: buildHumanMessage_def)
    next
      case ms: (Inr s)
      show ?thesis
      proof (cases "to_string code")
        case (Inl e)
        with assms code ms that show ?thesis by (simp add: buildHumanMessage_def)
      next
        case (Inr c)
        from bracketed [OF code ms Inr] that show ?thesis by auto
      qed
    qed
  qed
  have rejected: "runSfJson args (Closed (Some 0) (Some p) err) =
              RejectedWith (SfCliError
                \<lparr>message = shown, codeStr = field p ''code'', ctx = field p ''context'',
                 status = Some (JNum n), exitCode = None, stderr = Some err,
                 rawJson = Some p\<rparr>)"
    if "field p ''status'' = Some (JNum n)" "n \<noteq> 0" "buildHumanMessage p = Inr (Some found)"
       "to_string found = Inr shown" for n found shown
    using that found_truthy [OF that(3)]
    by (simp add: runSfJson_def p reject_with_message_def new_SfCliError_def)
  show ?thesis
    using plain bracketed strings rejected by blast
qed

theorem explicit_message_first_witness:
  "buildHumanMessage (JObj [(''status'', JNum 1), (''message'', JStr ''INVALID_TYPE''),
                            (''code'', JStr ''INVALID_TYPE'')])
     = Inr (Some (JStr ''INVALID_TYPE [INVALID_TYPE]''))
   \<and> runSfJson [''org'', ''list'', ''metadata'', ''-m'', ''Bogus'']
        (Closed (Some 0)
           (Some (JObj [(''status'', JNum 1), (''message'', JStr ''INVALID_TYPE''),
                        (''code'', JStr ''INVALID_TYPE'')])) [])
     = RejectedWith (SfCliError
         \<lparr>message = ''INVALID_TYPE [INVALID_TYPE]'', codeStr = Some (JStr ''INVALID_TYPE''),
          ctx = None, status = Some (JNum 1), exitCode = None, stderr = Some [],
          rawJson = Some (JObj [(''status'', JNum 1), (''message'', JStr ''INVALID_TYPE''),
                                (''code'', JStr ''INVALID_TYPE'')])\<rparr>)
   \<and> buildHumanMessage (JObj [(''message'', JStr ''Not found'')])
     = Inr (Some (JStr ''Not found''))"
proof -
  let ?p = "JObj [(''status'', JNum 1), (''message'', JStr ''INVALID_TYPE''),
                  (''code'', JStr ''INVALID_TYPE'')]"
  have "field ?p ''message'' = Some (JStr ''INVALID_TYPE'')" and "truthy (JStr ''INVALID_TYPE'')"
    by simp_all
  note first = explicit_message_first
    [OF this, where args = "[''org'', ''list'', ''metadata'', ''-m'', ''Bogus'']" and err = "[]"]
  from first have built:
    "buildHumanMessage ?p = Inr (Some (JStr ''INVALID_TYPE [INVALID_TYPE]''))"
    by simp
  from first built have rejected:
    "runSfJson [''org'', ''list'', ''metadata'', ''-m'', ''Bogus''] (Closed (Some 0) (Some ?p) [])
     = RejectedWith (SfCliError
         \<lparr>message = ''INVALID_TYPE [INVALID_TYPE]'', codeStr = Some (JStr ''INVALID_TYPE''),
          ctx = None, status = Some (JNum 1), exitCode = None, stderr = Some [],
          rawJson = Some ?p\<rparr>)"
    by simp
  have "field (JObj [(''message'', JStr ''Not found'')]) ''message'' = Some (JStr ''Not found'')"
    and "truthy (JStr ''Not found'')"
    by simp_all
  from explicit_message_first [OF this]
  have alone: "buildHumanMessage (JObj [(''message'', JStr ''Not found'')])
     = Inr (Some (JStr ''Not found''))"
    by simp
  show ?thesis
    using built rejected alone by simp
qed

theorem empty_message_counterexample:
  "field (JObj [(''message'', JStr ''''), (''code'', JStr ''X'')]) ''message'' = Some (JStr '''')
   \<and> buildHumanMessage (JObj [(''message'', JStr ''''), (''code'', JStr ''X'')])
       = Inr (Some (JStr ''Command failed [X]''))
   \<and> field (JObj [(''message'', JStr ''M''), (''code'', JStr '''')]) ''code'' = Some (JStr '''')
   \<and> buildHumanMessage (JObj [(''message'', JStr ''M''), (''code'', JStr '''')])
       = Inr (Some (JStr ''M''))
   \<and> field (JObj [(''message'', JObj [(''toString'', JNull)]), (''code'', JStr ''X'')]) ''message''
       = Some (JObj [(''toString'', JNull)])
   \<and> buildHumanMessage (JObj [(''message'', JObj [(''toString'', JNull)]), (''code'', JStr ''X'')])
       = Inl TypeError"
  by (simp add: buildHumanMessage_def from_messages_def from_files_def find_failed_def)

subsection \<open>The messages of a retrieve result\<close>

lemma join_nonempty: "xs \<noteq> [] \<Longrightarrow> \<forall>x\<in>set xs. x \<noteq> [] \<Longrightarrow> join sep xs \<noteq> []"
  by (induction sep xs rule: join.induct) auto

lemma map_entries_objects:
  "\<forall>m\<in>set ms. (\<exists>kvs. m = JObj kvs) \<and> \<not> truthy_opt (field m ''problem'') \<Longrightarrow>
   map_entries ms =
     Inr (map (\<lambda>m. case field m ''message'' of
                     Some v \<Rightarrow> if truthy v then v else m | None \<Rightarrow> m) ms)"
  by (induction ms) (auto simp: js_or_def split: option.splits)

text \<open>
  The strings to which the elements of a list convert, none of the elements being
  \<^verbatim>\<open>null\<close>.
\<close>

lemma to_strings_all:
  "\<forall>x\<in>set xs. x \<noteq> JNull \<Longrightarrow> list_all2 (\<lambda>x s. to_string x = Inr s) xs ss \<Longrightarrow>
   to_strings xs = Inr ss"
proof (induction xs arbitrary: ss)
  case Nil
  then show ?case by simp
next
  case (Cons x xs)
  from Cons.prems(2) obtain s rest where ss: "ss = s # rest"
    and s: "to_string x = Inr s" and rest: "list_all2 (\<lambda>x s. to_string x = Inr s) xs rest"
    by (cases ss) auto
  from Cons.prems(1) have "x \<noteq> JNull" and "\<forall>y\<in>set xs. y \<noteq> JNull" by simp_all
  with Cons.IH [OF _ rest] s ss show ?case by simp
qed

text \<open>
  C9: for every payload without a top-level \<^verbatim>\<open>message\<close>: when \<^verbatim>\<open>result.messages\<close> is an
  array whose first entry has a truthy (non-empty) \<^verbatim>\<open>problem\<close>, \<^verbatim>\<open>buildHumanMessage\<close> returns
  that problem; when it is a non-empty array of objects none of which has a truthy
  \<^verbatim>\<open>problem\<close>, the text of an entry being its \<^verbatim>\<open>message\<close> when that is truthy and the entry
  itself otherwise, and the texts convert to the strings \<open>ss\<close>, it returns these strings
  joined with \<^verbatim>\<open>"; "\<close>, unless the joined string is empty; when it is a string with a
  character that is not white space, it returns the string trimmed. An entry without a
  truthy \<^verbatim>\<open>message\<close> and without a member \<^verbatim>\<open>toString\<close> converts to \<^verbatim>\<open>[object Object]\<close>. A
  string of white space only, an empty \<^verbatim>\<open>problem\<close>, an empty joined string and an entry
  that does not convert to a string are passed over, as the counterexample shows.
\<close>

theorem result_messages_second:
  assumes "field p ''message'' = None" and "field p ''result'' = Some r"
  shows "(\<forall>first rest. field r ''messages'' = Some (JArr (first # rest))
            \<and> truthy_opt (field first ''problem'') \<longrightarrow>
            buildHumanMessage p = Inr (field first ''problem''))
       \<and> (\<forall>ms ss. field r ''messages'' = Some (JArr ms) \<and> ms \<noteq> []
            \<and> (\<forall>m\<in>set ms. (\<exists>kvs. m = JObj kvs) \<and> \<not> truthy_opt (field m ''problem''))
            \<and> list_all2
                 (\<lambda>m s. to_string (case field m ''message'' of
                                      Some v \<Rightarrow> if truthy v then v else m
                                    | None \<Rightarrow> m) = Inr s) ms ss
            \<and> join ''; '' ss \<noteq> [] \<longrightarrow>
            buildHumanMessage p = Inr (Some (JStr (join ''; '' ss))))
       \<and> (\<forall>kvs. field (JObj kvs) ''toString'' = None \<longrightarrow>
            to_string (JObj kvs) = Inr ''[object Object]'')
       \<and> (\<forall>s. field r ''messages'' = Some (JStr s) \<and> trim s \<noteq> [] \<longrightarrow>
            buildHumanMessage p = Inr (Some (JStr (trim s))))"
proof -
  have A: "buildHumanMessage p = Inr (field first ''problem'')"
    if "field r ''messages'' = Some (JArr (first # rest)) \<and> truthy_opt (field first ''problem'')"
    for first rest
    using assms that
    by (auto simp: buildHumanMessage_def from_messages_def split: option.splits)
  have D: "buildHumanMessage p = Inr (Some (JStr (trim s)))"
    if "field r ''messages'' = Some (JStr s) \<and> trim s \<noteq> []" for s
    using assms that by (simp add: buildHumanMessage_def from_messages_def)
  have C: "to_string (JObj kvs) = Inr ''[object Object]''"
    if "field (JObj kvs) ''toString'' = None" for kvs
  proof -
    from that have "''toString'' \<notin> fst ` set kvs"
      by (simp add: map_of_eq_None_iff)
    then have "map_of kvs ''toString'' = None"
      by (simp add: map_of_eq_None_iff)
    then show ?thesis by simp
  qed
  have B: "buildHumanMessage p = Inr (Some (JStr (join ''; '' ss)))"
    if a: "field r ''messages'' = Some (JArr ms) \<and> ms \<noteq> []
            \<and> (\<forall>m\<in>set ms. (\<exists>kvs. m = JObj kvs) \<and> \<not> truthy_opt (field m ''problem''))
            \<and> list_all2
                 (\<lambda>m s. to_string (case field m ''message'' of
                                      Some v \<Rightarrow> if truthy v then v else m
                                    | None \<Rightarrow> m) = Inr s) ms ss
            \<and> join ''; '' ss \<noteq> []"
    for ms ss
  proof -
    let ?g = "\<lambda>m. case field m ''message'' of
                     Some v \<Rightarrow> if truthy v then v else m | None \<Rightarrow> m"
    from a obtain first rest where ms: "ms = first # rest" by (cases ms) auto
    have objs: "\<forall>m\<in>set ms. (\<exists>kvs. m = JObj kvs) \<and> \<not> truthy_opt (field m ''problem'')"
      using a by (rule conjunct1 [OF conjunct2 [OF conjunct2]])
    have me: "map_entries ms = Inr (map ?g ms)"
      using objs by (rule map_entries_objects)
    have no_null: "\<forall>x\<in>set (map ?g ms). x \<noteq> JNull"
    proof
      fix x
      assume "x \<in> set (map ?g ms)"
      then obtain m where m: "m \<in> set ms" and x: "x = ?g m" by auto
      from objs m obtain kvs where "m = JObj kvs" by blast
      then show "x \<noteq> JNull"
        using x by (auto split: option.splits)
    qed
    have conv: "list_all2 (\<lambda>x s. to_string x = Inr s) (map ?g ms) ss"
      using a by (simp add: list_all2_map1)
    have ts: "to_strings (map ?g ms) = Inr ss"
      using no_null conv by (rule to_strings_all)
    have fp: "\<not> truthy_opt (field first ''problem'')" using objs ms by simp
    have ne: "join ''; '' ss \<noteq> []" using a by simp
    have fm: "field r ''messages'' = Some (JArr (first # rest))" using a ms by simp
    show ?thesis
      using assms fm fp me ts ne unfolding ms
      by (simp add: buildHumanMessage_def from_messages_def js_join_def)
  qed
  show ?thesis
    using A B C D by (intro conjI allI impI) blast+
qed

theorem result_messages_second_witness:
  "buildHumanMessage (JObj [(''result'', JObj [(''messages'',
       JArr [JObj [(''problem'', JStr ''P1''), (''fileName'', JStr ''a.cls'')],
             JObj [(''problem'', JStr ''P2'')]])])])
     = Inr (Some (JStr ''P1''))
   \<and> buildHumanMessage (JObj [(''result'', JObj [(''messages'',
       JArr [JObj [(''message'', JStr ''m1'')], JObj [(''fileName'', JStr ''f'')]])])])
     = Inr (Some (JStr ''m1; [object Object]''))
   \<and> buildHumanMessage (JObj [(''result'', JObj [(''messages'', JStr ''  a b  '')])])
     = Inr (Some (JStr ''a b''))"
proof (intro conjI)
  let ?r1 = "JObj [(''messages'',
       JArr [JObj [(''problem'', JStr ''P1''), (''fileName'', JStr ''a.cls'')],
             JObj [(''problem'', JStr ''P2'')]])]"
  have "field (JObj [(''result'', ?r1)]) ''message'' = None"
    and "field (JObj [(''result'', ?r1)]) ''result'' = Some ?r1"
    by simp_all
  from result_messages_second [OF this]
  show "buildHumanMessage (JObj [(''result'', ?r1)]) = Inr (Some (JStr ''P1''))"
    by simp
next
  let ?ms = "[JObj [(''message'', JStr ''m1'')], JObj [(''fileName'', JStr ''f'')]]"
  let ?ss = "[''m1'', ''[object Object]'']"
  let ?r2 = "JObj [(''messages'', JArr ?ms)]"
  have "field (JObj [(''result'', ?r2)]) ''message'' = None"
    and "field (JObj [(''result'', ?r2)]) ''result'' = Some ?r2"
    by simp_all
  from result_messages_second [OF this]
  have "field ?r2 ''messages'' = Some (JArr ?ms) \<and> ?ms \<noteq> []
            \<and> (\<forall>m\<in>set ?ms. (\<exists>kvs. m = JObj kvs) \<and> \<not> truthy_opt (field m ''problem''))
            \<and> list_all2
                 (\<lambda>m s. to_string (case field m ''message'' of
                                      Some v \<Rightarrow> if truthy v then v else m
                                    | None \<Rightarrow> m) = Inr s) ?ms ?ss
            \<and> join ''; '' ?ss \<noteq> [] \<longrightarrow>
            buildHumanMessage (JObj [(''result'', ?r2)]) = Inr (Some (JStr (join ''; '' ?ss)))"
    by blast
  then show "buildHumanMessage (JObj [(''result'', ?r2)]) = Inr (Some (JStr ''m1; [object Object]''))"
    by simp
next
  let ?r3 = "JObj [(''messages'', JStr ''  a b  '')]"
  have "field (JObj [(''result'', ?r3)]) ''message'' = None"
    and "field (JObj [(''result'', ?r3)]) ''result'' = Some ?r3"
    by simp_all
  from result_messages_second [OF this]
  have "field ?r3 ''messages'' = Some (JStr ''  a b  '') \<and> trim ''  a b  '' \<noteq> [] \<longrightarrow>
        buildHumanMessage (JObj [(''result'', ?r3)]) = Inr (Some (JStr (trim ''  a b  '')))"
    by blast
  then show "buildHumanMessage (JObj [(''result'', ?r3)]) = Inr (Some (JStr ''a b''))"
    by (simp add: trim_def is_ws_def)
qed

theorem blank_messages_counterexample:
  "field (JObj [(''result'', JObj [(''messages'', JStr ''  '')])]) ''message'' = None
   \<and> buildHumanMessage (JObj [(''result'', JObj [(''messages'', JStr ''  '')])]) = Inr None
   \<and> trim ''  '' = []
   \<and> field (JObj [(''problem'', JStr [])]) ''problem'' = Some (JStr [])
   \<and> buildHumanMessage
        (JObj [(''result'', JObj [(''messages'', JArr [JObj [(''problem'', JStr [])]])])])
       = Inr (Some (JStr ''[object Object]''))
   \<and> js_join ''; '' [JArr []] = Inr []
   \<and> buildHumanMessage
        (JObj [(''result'', JObj [(''messages'', JArr [JObj [(''message'', JArr [])]])])])
       = Inr None
   \<and> buildHumanMessage
        (JObj [(''result'', JObj [(''messages'', JArr [JObj [(''toString'', JStr ''t'')]])])])
       = Inl TypeError
   \<and> buildHumanMessage (JObj [(''result'', JObj [(''messages'', JStr [CHR 0xA0])])]) = Inr None"
  by (simp add: buildHumanMessage_def from_messages_def from_files_def find_failed_def
      trim_def is_ws_def js_or_def js_join_def)

section \<open>Properties of the cache store\<close>

subsection \<open>Freshness\<close>

text \<open>
  C2: with a time to live of \<open>ttl\<close> milliseconds, an entry is fresh at a time \<open>now\<close> if
  and only if it has no recorded timestamp, or its recorded timestamp is 0, or
  \<open>now - writtenAt < TTL\<close>. So an entry with a recorded timestamp other than 0 is stale
  exactly when \<open>now - writtenAt \<ge> TTL\<close>; one with the timestamp 0 is never stale, as
  the counterexample shows.
\<close>

theorem isFresh_iff:
  "(isFresh (Finite ttl) now t \<longleftrightarrow> (t = None \<or> t = Some 0 \<or> (\<exists>v. t = Some v \<and> now - v < ttl)))
   \<and> (\<not> isFresh (Finite ttl) now (Some v) \<longleftrightarrow> (v \<noteq> 0 \<and> ttl \<le> now - v))"
  by (auto simp: isFresh_def js_less_def split: option.splits)

theorem zero_timestamp_counterexample:
  "isFresh (Finite (1 * 24 * 60 * 60 * 1000)) 200000000 (Some 0)
   \<and> \<not> ((200000000::int) - 0 < 1 * 24 * 60 * 60 * 1000)"
  by (simp add: isFresh_def)

subsection \<open>The time to live\<close>

lemma TTL_MS_applyConfigSettings:
  "TTL_MS (applyConfigSettings w) = multiply (ttl_days (config w)) (24 * 60 * 60 * 1000)"
  by (simp add: applyConfigSettings_def Let_def split: option.splits sum.splits)

lemma clock_applyConfigSettings: "clock (applyConfigSettings w) = clock w"
  by (simp add: applyConfigSettings_def Let_def split: option.splits sum.splits)

lemma TTL_MS_set_pc [simp]: "TTL_MS (set_pc n t p w) = TTL_MS w"
  by (simp add: set_pc_def)

lemma TTL_MS_start_fetch [simp]: "TTL_MS (start_fetch n t w) = TTL_MS w"
  by (simp add: start_fetch_def Let_def split: option.splits)

lemma TTL_MS_coalesce_or_fetch [simp]: "TTL_MS (coalesce_or_fetch n t w) = TTL_MS w"
  by (simp add: coalesce_or_fetch_def split: option.splits)

lemma TTL_MS_write_items [simp]: "TTL_MS (write_items c w) = TTL_MS w"
  by (simp add: write_items_def split: option.splits sum.splits)

lemma TTL_MS_deleteItemsCache [simp]: "TTL_MS (snd (deleteItemsCache org w)) = TTL_MS w"
  by (simp add: deleteItemsCache_def Let_def split: option.splits sum.splits prod.splits)

lemma TTL_MS_step:
  "\<forall>cfg. ConfigChanged cfg \<noteq> e \<Longrightarrow> TTL_MS (step e w) = TTL_MS w"
  by (cases e)
     (auto simp: new_call_def after_org_def after_disk_def after_process_def resume_def Let_def
           split: option.splits pc.splits settled.splits prod.splits)

lemma TTL_MS_run:
  "\<forall>cfg. ConfigChanged cfg \<notin> set es \<Longrightarrow> TTL_MS (run es w) = TTL_MS w"
  unfolding run_def
  by (induction es arbitrary: w) (auto simp: TTL_MS_step)

lemma ttl_days_number:
  "cacheTtlDays cfg = None \<and> d = 30 \<or> cacheTtlDays cfg = Some (WholeNumber d) \<Longrightarrow>
   ttl_days cfg = Finite (if d < 1 then 1 else if 30 < d then 30 else d)"
  by (auto simp: ttl_days_def Number_def math_min_def math_max_def)

text \<open>
  C7: when the configured value of \<^verbatim>\<open>cacheTtlDays\<close> is a whole number \<open>d\<close>, or nothing is
  configured and \<open>d\<close> is the default 30, the number of days is \<open>d\<close> clamped to the range
  from 1 to 30; \<^verbatim>\<open>applyConfigSettings\<close> sets \<^verbatim>\<open>TTL_MS\<close> to that many days, as does a
  change of the setting; and every freshness check from then on, after any events that
  are no change of the settings, compares the age of an entry with that many days: the
  time to live is read from the module variable at each check and is no part of an
  entry. A configured value that is no number makes the time to live \<^verbatim>\<open>NaN\<close>, as the
  counterexample shows.
\<close>

theorem ttl_follows_setting:
  assumes "cacheTtlDays cfg = None \<and> d = 30 \<or> cacheTtlDays cfg = Some (WholeNumber d)"
    and "days = (if d < 1 then 1 else if 30 < d then 30 else d)"
  shows "ttl_days cfg = Finite days
   \<and> (config w = cfg \<longrightarrow>
        TTL_MS (applyConfigSettings w) = Finite (days * 24 * 60 * 60 * 1000))
   \<and> (cacheTtlDays (config w) \<noteq> cacheTtlDays cfg \<longrightarrow>
        TTL_MS (step (ConfigChanged cfg) w) = Finite (days * 24 * 60 * 60 * 1000))
   \<and> (config w = cfg \<longrightarrow>
        fresh_in (applyConfigSettings w) t
          = isFresh (Finite (days * 24 * 60 * 60 * 1000)) (clock w) t)
   \<and> (config w = cfg \<and> (\<forall>c. ConfigChanged c \<notin> set es) \<longrightarrow>
        fresh_in (run es (applyConfigSettings w)) t
          = isFresh (Finite (days * 24 * 60 * 60 * 1000))
              (clock (run es (applyConfigSettings w))) t)"
proof -
  have days: "ttl_days cfg = Finite days"
    using assms ttl_days_number [of cfg d] by simp
  have applied: "TTL_MS (applyConfigSettings w) = Finite (days * 24 * 60 * 60 * 1000)"
    if "config w = cfg" for w
    using days that by (simp add: TTL_MS_applyConfigSettings multiply_def)
  have changed: "TTL_MS (step (ConfigChanged cfg) w) = Finite (days * 24 * 60 * 60 * 1000)"
    if "cacheTtlDays (config w) \<noteq> cacheTtlDays cfg"
    using that applied [of "w\<lparr>config := cfg\<rparr>"] by (simp add: affects_cache_def)
  have checked: "fresh_in (applyConfigSettings w) t
          = isFresh (Finite (days * 24 * 60 * 60 * 1000)) (clock w) t"
    if "config w = cfg"
    using applied [OF that] by (simp add: fresh_in_def clock_applyConfigSettings)
  have later: "fresh_in (run es (applyConfigSettings w)) t
          = isFresh (Finite (days * 24 * 60 * 60 * 1000))
              (clock (run es (applyConfigSettings w))) t"
    if "config w = cfg \<and> (\<forall>c. ConfigChanged c \<notin> set es)"
  proof -
    from that have "TTL_MS (run es (applyConfigSettings w)) = TTL_MS (applyConfigSettings w)"
      by (simp add: TTL_MS_run)
    with that applied [of w] show ?thesis
      by (simp add: fresh_in_def)
  qed
  show ?thesis
    using days applied changed checked later by simp
qed

theorem ttl_follows_setting_witness:
  "(\<forall>c. ConfigChanged c \<notin> set [Advance 2678400000])
   \<and> ttl_days (default_settings\<lparr>cacheTtlDays := Some (WholeNumber 45)\<rparr>) = Finite 30
   \<and> TTL_MS (applyConfigSettings
               (started\<lparr>config := default_settings\<lparr>cacheTtlDays := Some (WholeNumber 45)\<rparr>\<rparr>))
       = Finite 2592000000
   \<and> cacheTtlDays (config started)
       \<noteq> cacheTtlDays (default_settings\<lparr>cacheTtlDays := Some (WholeNumber 7)\<rparr>)
   \<and> TTL_MS (step (ConfigChanged (default_settings\<lparr>cacheTtlDays := Some (WholeNumber 7)\<rparr>))
               started)
       = Finite 604800000
   \<and> fresh_in (applyConfigSettings
                 (started\<lparr>config := default_settings\<lparr>cacheTtlDays := Some (WholeNumber 45)\<rparr>\<rparr>))
        (Some 1700000000000)
   \<and> \<not> fresh_in
          (run [Advance 2678400000]
             (applyConfigSettings
                (started\<lparr>config := default_settings\<lparr>cacheTtlDays := Some (WholeNumber 45)\<rparr>\<rparr>)))
          (Some 1700000000000)
   \<and> TTL_MS (applyConfigSettings started) = Finite 2592000000"
proof -
  let ?long = "default_settings\<lparr>cacheTtlDays := Some (WholeNumber 45)\<rparr>"
  let ?w = "started\<lparr>config := ?long\<rparr>"
  let ?week = "default_settings\<lparr>cacheTtlDays := Some (WholeNumber 7)\<rparr>"
  have quiet: "\<forall>c. ConfigChanged c \<notin> set [Advance 2678400000]" by simp
  have changed: "cacheTtlDays (config started) \<noteq> cacheTtlDays ?week"
    by (simp add: started_def default_settings_def)
  have "cacheTtlDays ?long = None \<and> (45::int) = 30 \<or> cacheTtlDays ?long = Some (WholeNumber 45)"
    and "(30::int) = (if (45::int) < 1 then 1 else if 30 < (45::int) then 30 else 45)"
    by simp_all
  note a = ttl_follows_setting
    [OF this, where w = ?w and es = "[Advance 2678400000]" and t = "Some 1700000000000"]
  have "cacheTtlDays ?week = None \<and> (7::int) = 30 \<or> cacheTtlDays ?week = Some (WholeNumber 7)"
    and "(7::int) = (if (7::int) < 1 then 1 else if 30 < (7::int) then 30 else 7)"
    by simp_all
  note b = ttl_follows_setting [OF this, where w = started]
  have "cacheTtlDays default_settings = None \<and> (30::int) = 30
        \<or> cacheTtlDays default_settings = Some (WholeNumber 30)"
    and "(30::int) = (if (30::int) < 1 then 1 else if 30 < (30::int) then 30 else 30)"
    by (simp_all add: default_settings_def)
  note c = ttl_follows_setting [OF this, where w = started]
  from a have days: "ttl_days ?long = Finite 30"
    by simp
  from a have ttl: "TTL_MS (applyConfigSettings ?w) = Finite 2592000000"
    by simp
  from b changed have week: "TTL_MS (step (ConfigChanged ?week) started) = Finite 604800000"
    by simp
  from a have now: "fresh_in (applyConfigSettings ?w) (Some 1700000000000)"
    by (simp add: started_def isFresh_def js_less_def)
  from a quiet have later: "\<not> fresh_in (run [Advance 2678400000] (applyConfigSettings ?w))
      (Some 1700000000000)"
    by (simp add: started_def isFresh_def js_less_def run_def clock_applyConfigSettings)
  from c have unset: "TTL_MS (applyConfigSettings started) = Finite 2592000000"
    by (simp add: started_def)
  show ?thesis
    using quiet days ttl changed week now later unset by simp
qed

theorem text_setting_counterexample:
  "Number NotANumber = NaN
   \<and> TTL_MS (applyConfigSettings
               (started\<lparr>config := default_settings\<lparr>cacheTtlDays := Some NotANumber\<rparr>\<rparr>)) = NaN
   \<and> \<not> fresh_in
          (applyConfigSettings
             (started\<lparr>config := default_settings\<lparr>cacheTtlDays := Some NotANumber\<rparr>\<rparr>))
          (Some 1699999999999)
   \<and> clock (applyConfigSettings
              (started\<lparr>config := default_settings\<lparr>cacheTtlDays := Some NotANumber\<rparr>\<rparr>))
       = 1700000000000
   \<and> isFresh (Finite (1 * 24 * 60 * 60 * 1000)) 1700000000000 (Some 1699999999999)"
  by (simp add: applyConfigSettings_def ttl_days_def Number_def math_max_def math_min_def
      multiply_def fresh_in_def isFresh_def js_less_def started_def default_settings_def
      cachingEnabled_def Let_def)

subsection \<open>Paths of item lists\<close>






subsection \<open>Switching the cache off\<close>

lemma denied_purge_file [simp]: "denied (purge_file dir f fsys) = denied fsys"
  by (simp add: purge_file_def unlink_def split: sum.splits)

lemma dirs_purge_file [simp]: "dirs (purge_file dir f fsys) = dirs fsys"
  by (simp add: purge_file_def unlink_def split: sum.splits)


lemma denied_fold_purge [simp]: "denied (fold (purge_file dir) names fsys) = denied fsys"
  by (induction names arbitrary: fsys) simp_all






subsection \<open>Clearing the item lists of an org\<close>











section \<open>Properties of the request coalescer\<close>

text \<open>
  The conditions of \<open>coalesced\<close> hold when no call is in progress, and every event keeps
  them: the in-flight map holds exactly the calls that had caching enabled and are in
  their fetch, each under its key; a finished call has the result of the promise it
  returned; a promise belongs to the call that made it; and exactly the calls that made
  a promise have spawned a process, once each.
\<close>

lemma coalesced_inv3: "coalesced w = inv3 (tasks w) (inflightItems w) (spawned w)"
  by (simp add: coalesced_def inv3_def)

lemma settled_result_simps [simp]:
  "settled_result AwaitOrg = None" "settled_result AwaitDisk = None"
  "settled_result Fetching = None" "settled_result (Saving c) = None"
  "settled_result Hung = None" "settled_result Joined = None"
  "settled_result (Settled r) = Some r" "settled_result (Done r) = Some r"
  by (simp_all add: settled_result_def)

lemma in_fetch_simps [simp]:
  "in_fetch AwaitOrg = False" "in_fetch AwaitDisk = False"
  "in_fetch Fetching = True" "in_fetch (Saving c) = True"
  "in_fetch Hung = True" "in_fetch Joined = False"
  "in_fetch (Settled r) = True" "in_fetch (Done r) = False"
  by (simp_all add: in_fetch_def)

lemma waiting_not_spawned:
  assumes "inv3 T F S" and "waiting T n"
  shows "n \<notin> fst ` set S"
proof
  assume "n \<in> fst ` set S"
  with assms(1) obtain t where t: "T n = Some t" "t_promise t = Some n"
    unfolding inv3_def spawned_by_owners_def by blast
  with assms(2) have "t_pc t = AwaitOrg \<or> t_pc t = AwaitDisk" by (simp add: waiting_def)
  with assms(1) t show False unfolding inv3_def own_promise_def by fastforce
qed

lemma waiting_not_owner:
  assumes "waiting T n" and "T n = Some ot"
  shows "settled_result (t_pc ot) = None" and "\<not> in_fetch (t_pc ot)"
  using assms by (auto simp: waiting_def)

lemma waiting_no_promise:
  assumes "inv3 T F S" and "waiting T n" and "T m = Some t"
  shows "t_promise t \<noteq> Some n"
proof
  assume "t_promise t = Some n"
  with assms(1,3) obtain ot where "T n = Some ot" "t_promise ot = Some n"
    unfolding inv3_def own_promise_def by blast
  with assms(1) have "n \<in> fst ` set S"
    unfolding inv3_def spawned_by_owners_def by blast
  with waiting_not_spawned [OF assms(1,2)] show False by simp
qed

lemma waiting_unregistered:
  assumes "inv3 T F S" and "waiting T n"
  shows "F k \<noteq> Some n"
proof
  assume "F k = Some n"
  with assms(1) obtain t where "T n = Some t" "in_fetch (t_pc t)"
    unfolding inv3_def registered_def by blast
  with assms(2) show False by (auto dest: waiting_not_owner)
qed

text \<open>
  The step of a call that was waiting and does not start a fetch: it stays waiting,
  it is done from the cache, or it has joined the promise of another call.
\<close>

lemma inv3_idle:
  assumes inv: "inv3 T F S" and w: "waiting T n"
    and nf: "\<not> in_fetch (t_pc t')"
    and nd: "\<forall>r. t_pc t' \<noteq> Done r \<or> t_promise t' = None"
    and pr: "t_promise t' = None
             \<or> (\<exists>owner ot. t_promise t' = Some owner \<and> owner \<noteq> n \<and> T owner = Some ot
                   \<and> t_promise ot = Some owner \<and> t_pc t' = Joined)"
  shows "inv3 (T(n \<mapsto> t')) F S"
proof -
  have ns: "n \<notin> fst ` set S" using inv w by (rule waiting_not_spawned)
  have pn: "t_promise t' \<noteq> Some n" using pr by auto
  have r: "registered (T(n \<mapsto> t')) F"
    unfolding registered_def
  proof (intro allI)
    fix m k
    have "F k = Some m \<longleftrightarrow>
        (\<exists>t. T m = Some t \<and> t_cachingEnabled t \<and> task_key t = Some k \<and> in_fetch (t_pc t))"
      using inv unfolding inv3_def registered_def by blast
    moreover have "F k \<noteq> Some n" using inv w by (rule waiting_unregistered)
    ultimately show "F k = Some m \<longleftrightarrow>
        (\<exists>t. (T(n \<mapsto> t')) m = Some t \<and> t_cachingEnabled t \<and> task_key t = Some k
              \<and> in_fetch (t_pc t))"
      using nf by (cases "m = n") auto
  qed
  have s: "shared_results (T(n \<mapsto> t'))"
    unfolding shared_results_def
  proof (intro allI impI)
    fix m t owner r
    assume a: "(T(n \<mapsto> t')) m = Some t \<and> t_promise t = Some owner \<and> t_pc t = Done r"
    with nd have mn: "m \<noteq> n" by auto
    with a inv obtain ot where ot: "T owner = Some ot" "settled_result (t_pc ot) = Some r"
      unfolding inv3_def shared_results_def by fastforce
    with w have "owner \<noteq> n" by (auto dest: waiting_not_owner)
    with ot show "\<exists>ot. (T(n \<mapsto> t')) owner = Some ot \<and> settled_result (t_pc ot) = Some r"
      by simp
  qed
  have o: "own_promise (T(n \<mapsto> t'))"
    unfolding own_promise_def
  proof (intro allI impI)
    fix m t
    assume a: "(T(n \<mapsto> t')) m = Some t"
    show "(in_fetch (t_pc t) \<longrightarrow> t_promise t = Some m)
        \<and> (t_pc t = AwaitOrg \<or> t_pc t = AwaitDisk \<longrightarrow> t_promise t = None)
        \<and> (\<forall>owner. t_promise t = Some owner \<longrightarrow>
              (\<exists>ot. (T(n \<mapsto> t')) owner = Some ot \<and> t_promise ot = Some owner))"
    proof (cases "m = n")
      case True
      with a have "t = t'" by simp
      with True nf pr show ?thesis by auto
    next
      case False
      with a have tm: "T m = Some t" by simp
      with inv have old: "(in_fetch (t_pc t) \<longrightarrow> t_promise t = Some m)"
        "(t_pc t = AwaitOrg \<or> t_pc t = AwaitDisk \<longrightarrow> t_promise t = None)"
        "\<forall>owner. t_promise t = Some owner \<longrightarrow> (\<exists>ot. T owner = Some ot \<and> t_promise ot = Some owner)"
        unfolding inv3_def own_promise_def by blast+
      have "t_promise t \<noteq> Some n" using inv w tm by (rule waiting_no_promise)
      with old show ?thesis by auto
    qed
  qed
  have sp: "spawned_by_owners (T(n \<mapsto> t')) S"
    using inv ns pn unfolding inv3_def spawned_by_owners_def by auto
  show ?thesis using r s o sp by (simp add: inv3_def)
qed

text \<open>The step of a waiting call that starts its fetch.\<close>

lemma inv3_fetch:
  assumes inv: "inv3 T F S" and w: "waiting T n"
    and t': "t_promise t' = Some n" "t_pc t' = Fetching"
    and F': "(\<exists>k. t_cachingEnabled t' \<and> task_key t' = Some k \<and> F k = None \<and> F' = F(k \<mapsto> n))
             \<or> (\<not> (t_cachingEnabled t' \<and> task_key t' \<noteq> None) \<and> F' = F)"
  shows "inv3 (T(n \<mapsto> t')) F' (S @ [(n, args)])"
proof -
  have ns: "n \<notin> fst ` set S" using inv w by (rule waiting_not_spawned)
  have reg: "\<And>m k. F k = Some m \<longleftrightarrow>
        (\<exists>t. T m = Some t \<and> t_cachingEnabled t \<and> task_key t = Some k \<and> in_fetch (t_pc t))"
    using inv unfolding inv3_def registered_def by blast
  have un: "\<And>k. F k \<noteq> Some n" using inv w by (rule waiting_unregistered)
  have r: "registered (T(n \<mapsto> t')) F'"
    unfolding registered_def
  proof (intro allI)
    fix m k
    show "F' k = Some m \<longleftrightarrow>
        (\<exists>t. (T(n \<mapsto> t')) m = Some t \<and> t_cachingEnabled t \<and> task_key t = Some k
              \<and> in_fetch (t_pc t))"
    proof (cases "m = n")
      case True
      with F' un [of k] t' show ?thesis by (auto split: if_splits)
    next
      case False
      with F' have "F' k = Some m \<longleftrightarrow> F k = Some m" by (auto split: if_splits)
      with False reg [of k m] show ?thesis by simp
    qed
  qed
  have s: "shared_results (T(n \<mapsto> t'))"
    unfolding shared_results_def
  proof (intro allI impI)
    fix m t owner r
    assume a: "(T(n \<mapsto> t')) m = Some t \<and> t_promise t = Some owner \<and> t_pc t = Done r"
    with t' have mn: "m \<noteq> n" by auto
    with a inv obtain ot where ot: "T owner = Some ot" "settled_result (t_pc ot) = Some r"
      unfolding inv3_def shared_results_def by fastforce
    with w have "owner \<noteq> n" by (auto dest: waiting_not_owner)
    with ot show "\<exists>ot. (T(n \<mapsto> t')) owner = Some ot \<and> settled_result (t_pc ot) = Some r"
      by simp
  qed
  have o: "own_promise (T(n \<mapsto> t'))"
    unfolding own_promise_def
  proof (intro allI impI)
    fix m t
    assume a: "(T(n \<mapsto> t')) m = Some t"
    show "(in_fetch (t_pc t) \<longrightarrow> t_promise t = Some m)
        \<and> (t_pc t = AwaitOrg \<or> t_pc t = AwaitDisk \<longrightarrow> t_promise t = None)
        \<and> (\<forall>owner. t_promise t = Some owner \<longrightarrow>
              (\<exists>ot. (T(n \<mapsto> t')) owner = Some ot \<and> t_promise ot = Some owner))"
    proof (cases "m = n")
      case True
      with a have "t = t'" by simp
      with True t' show ?thesis by auto
    next
      case False
      with a have tm: "T m = Some t" by simp
      with inv have old: "(in_fetch (t_pc t) \<longrightarrow> t_promise t = Some m)"
        "(t_pc t = AwaitOrg \<or> t_pc t = AwaitDisk \<longrightarrow> t_promise t = None)"
        "\<forall>owner. t_promise t = Some owner \<longrightarrow> (\<exists>ot. T owner = Some ot \<and> t_promise ot = Some owner)"
        unfolding inv3_def own_promise_def by blast+
      have "t_promise t \<noteq> Some n" using inv w tm by (rule waiting_no_promise)
      with old show ?thesis by auto
    qed
  qed
  have sp: "spawned_by_owners (T(n \<mapsto> t')) (S @ [(n, args)])"
    using inv ns t' unfolding inv3_def spawned_by_owners_def by auto
  show ?thesis using r s o sp by (simp add: inv3_def)
qed

text \<open>
  A step that changes only the place of a call: within its fetch, or from its settled
  promise or the settled promise it joined to the end.
\<close>

lemma own_promise_set_pc:
  assumes "own_promise T" and "T n = Some t"
    and "in_fetch p \<longrightarrow> t_promise t = Some n"
    and "p \<noteq> AwaitOrg" "p \<noteq> AwaitDisk"
  shows "own_promise (T(n \<mapsto> t\<lparr>t_pc := p\<rparr>))"
  unfolding own_promise_def
proof (intro allI impI)
  fix m u
  assume a: "(T(n \<mapsto> t\<lparr>t_pc := p\<rparr>)) m = Some u"
  have own: "\<exists>ot. (T(n \<mapsto> t\<lparr>t_pc := p\<rparr>)) owner = Some ot \<and> t_promise ot = Some owner"
    if "T m' = Some u'" "t_promise u' = Some owner" for m' u' owner
  proof -
    from assms(1) that obtain ot where "T owner = Some ot" "t_promise ot = Some owner"
      unfolding own_promise_def by blast
    with assms(2) show ?thesis by (cases "owner = n") auto
  qed
  show "(in_fetch (t_pc u) \<longrightarrow> t_promise u = Some m)
        \<and> (t_pc u = AwaitOrg \<or> t_pc u = AwaitDisk \<longrightarrow> t_promise u = None)
        \<and> (\<forall>owner. t_promise u = Some owner \<longrightarrow>
              (\<exists>ot. (T(n \<mapsto> t\<lparr>t_pc := p\<rparr>)) owner = Some ot \<and> t_promise ot = Some owner))"
  proof (cases "m = n")
    case True
    with a have "u = t\<lparr>t_pc := p\<rparr>" by simp
    with True assms(2-5) own [of n t] show ?thesis by auto
  next
    case False
    with a have tm: "T m = Some u" by simp
    with assms(1) have "(in_fetch (t_pc u) \<longrightarrow> t_promise u = Some m)"
        "(t_pc u = AwaitOrg \<or> t_pc u = AwaitDisk \<longrightarrow> t_promise u = None)"
      unfolding own_promise_def by blast+
    with own [OF tm] show ?thesis by auto
  qed
qed

lemma spawned_set_pc:
  assumes "spawned_by_owners T S" and "T n = Some t"
  shows "spawned_by_owners (T(n \<mapsto> t\<lparr>t_pc := p\<rparr>)) S"
  using assms unfolding spawned_by_owners_def by auto

lemma inv3_progress:
  assumes inv: "inv3 T F S" and cur: "T n = Some t" "t_pc t = Fetching \<or> (\<exists>c. t_pc t = Saving c)"
    and nxt: "in_fetch p"
  shows "inv3 (T(n \<mapsto> t\<lparr>t_pc := p\<rparr>)) F S"
proof -
  have inf: "in_fetch (t_pc t)" using cur by auto
  have pn: "t_promise t = Some n"
    using inv cur(1) inf unfolding inv3_def own_promise_def by blast
  have reg: "\<And>m k. F k = Some m \<longleftrightarrow>
        (\<exists>t. T m = Some t \<and> t_cachingEnabled t \<and> task_key t = Some k \<and> in_fetch (t_pc t))"
    using inv unfolding inv3_def registered_def by blast
  have r: "registered (T(n \<mapsto> t\<lparr>t_pc := p\<rparr>)) F"
    unfolding registered_def
  proof (intro allI)
    fix m k
    show "F k = Some m \<longleftrightarrow>
        (\<exists>u. (T(n \<mapsto> t\<lparr>t_pc := p\<rparr>)) m = Some u \<and> t_cachingEnabled u \<and> task_key u = Some k
              \<and> in_fetch (t_pc u))"
      using reg [of k m] cur(1) inf nxt by (cases "m = n") (auto simp: task_key_def)
  qed
  have s: "shared_results (T(n \<mapsto> t\<lparr>t_pc := p\<rparr>))"
    unfolding shared_results_def
  proof (intro allI impI)
    fix m u owner r
    assume a: "(T(n \<mapsto> t\<lparr>t_pc := p\<rparr>)) m = Some u \<and> t_promise u = Some owner \<and> t_pc u = Done r"
    with nxt have mn: "m \<noteq> n" by auto
    with a inv obtain ot where ot: "T owner = Some ot" "settled_result (t_pc ot) = Some r"
      unfolding inv3_def shared_results_def by fastforce
    with cur have "owner \<noteq> n" by auto
    with ot show "\<exists>ot. (T(n \<mapsto> t\<lparr>t_pc := p\<rparr>)) owner = Some ot \<and> settled_result (t_pc ot) = Some r"
      by simp
  qed
  have o: "own_promise (T(n \<mapsto> t\<lparr>t_pc := p\<rparr>))"
    using inv cur(1) pn nxt unfolding inv3_def by (intro own_promise_set_pc) auto
  have sp: "spawned_by_owners (T(n \<mapsto> t\<lparr>t_pc := p\<rparr>)) S"
    using inv cur(1) unfolding inv3_def by (intro spawned_set_pc) auto
  show ?thesis using r s o sp by (simp add: inv3_def)
qed

lemma inv3_finally:
  assumes inv: "inv3 T F S" and cur: "T n = Some t" "t_pc t = Settled r"
    and F': "(\<exists>k. t_cachingEnabled t \<and> task_key t = Some k \<and> F' = F(k := None))
             \<or> (\<not> (t_cachingEnabled t \<and> task_key t \<noteq> None) \<and> F' = F)"
  shows "inv3 (T(n \<mapsto> t\<lparr>t_pc := Done r\<rparr>)) F' S"
proof -
  have inf: "in_fetch (t_pc t)" using cur by simp
  have reg: "\<And>m k. F k = Some m \<longleftrightarrow>
        (\<exists>t. T m = Some t \<and> t_cachingEnabled t \<and> task_key t = Some k \<and> in_fetch (t_pc t))"
    using inv unfolding inv3_def registered_def by blast
  have pn: "t_promise t = Some n"
    using inv cur(1) inf unfolding inv3_def own_promise_def by blast
  have r: "registered (T(n \<mapsto> t\<lparr>t_pc := Done r\<rparr>)) F'"
    unfolding registered_def
  proof (intro allI)
    fix m k
    show "F' k = Some m \<longleftrightarrow>
        (\<exists>u. (T(n \<mapsto> t\<lparr>t_pc := Done r\<rparr>)) m = Some u \<and> t_cachingEnabled u \<and> task_key u = Some k
              \<and> in_fetch (t_pc u))"
    proof (cases "m = n")
      case True
      have "F' k \<noteq> Some n"
      proof
        assume f: "F' k = Some n"
        with F' have "F k = Some n" by (auto split: if_splits)
        with reg [of k n] cur(1) have e: "t_cachingEnabled t" "task_key t = Some k" by auto
        with F' have "F' = F(k := None)" by auto
        with f show False by simp
      qed
      with True show ?thesis by simp
    next
      case False
      have "F' k = Some m \<longleftrightarrow> F k = Some m"
      proof (cases "\<exists>k'. t_cachingEnabled t \<and> task_key t = Some k' \<and> F' = F(k' := None)")
        case True
        then obtain k' where k': "t_cachingEnabled t" "task_key t = Some k'" "F' = F(k' := None)"
          by blast
        with reg [of k' n] cur(1) inf have "F k' = Some n" by auto
        with k' False show ?thesis by auto
      next
        case False
        with F' show ?thesis by auto
      qed
      with reg [of k m] False show ?thesis by simp
    qed
  qed
  have s: "shared_results (T(n \<mapsto> t\<lparr>t_pc := Done r\<rparr>))"
    unfolding shared_results_def
  proof (intro allI impI)
    fix m u owner r'
    assume a: "(T(n \<mapsto> t\<lparr>t_pc := Done r\<rparr>)) m = Some u \<and> t_promise u = Some owner
               \<and> t_pc u = Done r'"
    show "\<exists>ot. (T(n \<mapsto> t\<lparr>t_pc := Done r\<rparr>)) owner = Some ot \<and> settled_result (t_pc ot) = Some r'"
    proof (cases "m = n")
      case True
      with a pn show ?thesis by auto
    next
      case False
      with a inv obtain ot where ot: "T owner = Some ot" "settled_result (t_pc ot) = Some r'"
        unfolding inv3_def shared_results_def by fastforce
      with cur show ?thesis by (cases "owner = n") auto
    qed
  qed
  have o: "own_promise (T(n \<mapsto> t\<lparr>t_pc := Done r\<rparr>))"
    using inv cur(1) unfolding inv3_def by (intro own_promise_set_pc) auto
  have sp: "spawned_by_owners (T(n \<mapsto> t\<lparr>t_pc := Done r\<rparr>)) S"
    using inv cur(1) unfolding inv3_def by (intro spawned_set_pc) auto
  show ?thesis using r s o sp by (simp add: inv3_def)
qed

lemma inv3_joined_done:
  assumes inv: "inv3 T F S" and cur: "T n = Some t" "t_pc t = Joined" "t_promise t = Some owner"
    and own: "T owner = Some ot" "settled_result (t_pc ot) = Some r"
  shows "inv3 (T(n \<mapsto> t\<lparr>t_pc := Done r\<rparr>)) F S"
proof -
  have on: "owner \<noteq> n" using cur own by auto
  have reg: "\<And>m k. F k = Some m \<longleftrightarrow>
        (\<exists>t. T m = Some t \<and> t_cachingEnabled t \<and> task_key t = Some k \<and> in_fetch (t_pc t))"
    using inv unfolding inv3_def registered_def by blast
  have r: "registered (T(n \<mapsto> t\<lparr>t_pc := Done r\<rparr>)) F"
    unfolding registered_def
  proof (intro allI)
    fix m k
    show "F k = Some m \<longleftrightarrow>
        (\<exists>u. (T(n \<mapsto> t\<lparr>t_pc := Done r\<rparr>)) m = Some u \<and> t_cachingEnabled u \<and> task_key u = Some k
              \<and> in_fetch (t_pc u))"
      using reg [of k m] cur(1,2) by (cases "m = n") auto
  qed
  have s: "shared_results (T(n \<mapsto> t\<lparr>t_pc := Done r\<rparr>))"
    unfolding shared_results_def
  proof (intro allI impI)
    fix m u ow r'
    assume a: "(T(n \<mapsto> t\<lparr>t_pc := Done r\<rparr>)) m = Some u \<and> t_promise u = Some ow
               \<and> t_pc u = Done r'"
    show "\<exists>ot. (T(n \<mapsto> t\<lparr>t_pc := Done r\<rparr>)) ow = Some ot \<and> settled_result (t_pc ot) = Some r'"
    proof (cases "m = n")
      case True
      with a cur own on show ?thesis by auto
    next
      case False
      with a inv obtain ot' where ot: "T ow = Some ot'" "settled_result (t_pc ot') = Some r'"
        unfolding inv3_def shared_results_def by fastforce
      with cur show ?thesis by (cases "ow = n") auto
    qed
  qed
  have o: "own_promise (T(n \<mapsto> t\<lparr>t_pc := Done r\<rparr>))"
    using inv cur(1) unfolding inv3_def by (intro own_promise_set_pc) auto
  have sp: "spawned_by_owners (T(n \<mapsto> t\<lparr>t_pc := Done r\<rparr>)) S"
    using inv cur(1) unfolding inv3_def by (intro spawned_set_pc) auto
  show ?thesis using r s o sp by (simp add: inv3_def)
qed

lemma parts_set_pc [simp]:
  "tasks (set_pc n t p w) = (tasks w)(n \<mapsto> t\<lparr>t_pc := p\<rparr>)"
  "inflightItems (set_pc n t p w) = inflightItems w"
  "spawned (set_pc n t p w) = spawned w"
  by (simp_all add: set_pc_def)

lemma parts_write_items [simp]:
  "tasks (write_items c w) = tasks w"
  "inflightItems (write_items c w) = inflightItems w"
  "spawned (write_items c w) = spawned w"
  by (simp_all add: write_items_def split: option.splits sum.splits)

lemma parts_applyConfigSettings [simp]:
  "tasks (applyConfigSettings w) = tasks w"
  "inflightItems (applyConfigSettings w) = inflightItems w"
  "spawned (applyConfigSettings w) = spawned w"
  by (simp_all add: applyConfigSettings_def Let_def split: option.splits sum.splits)

lemma parts_deleteItemsCache [simp]:
  "tasks (snd (deleteItemsCache org w)) = tasks w"
  "inflightItems (snd (deleteItemsCache org w)) = inflightItems w"
  "spawned (snd (deleteItemsCache org w)) = spawned w"
  by (simp_all add: deleteItemsCache_def Let_def split: option.splits sum.splits prod.splits)

lemma coalesced_cong:
  "tasks w' = tasks w \<Longrightarrow> inflightItems w' = inflightItems w \<Longrightarrow> spawned w' = spawned w \<Longrightarrow>
   coalesced w' = coalesced w"
  by (simp add: coalesced_def)

lemma coalesced_new_call:
  assumes "coalesced w" and "tasks w n = None"
  shows "coalesced (new_call n ty w)"
proof -
  have w: "waiting (tasks w) n" using assms(2) by (simp add: waiting_def)
  show ?thesis
    using assms(1) unfolding coalesced_inv3 new_call_def Let_def
    by (auto split: option.splits intro!: inv3_idle [OF _ w])
qed

lemma coalesced_start_fetch:
  assumes c: "coalesced w" and w: "waiting (tasks w) n"
    and free: "\<forall>k. t_cachingEnabled t \<and> task_key t = Some k \<longrightarrow> inflightItems w k = None"
  shows "coalesced (start_fetch n t w)"
proof -
  let ?t' = "t\<lparr>t_promise := Some n, t_pc := Fetching\<rparr>"
  have k: "task_key ?t' = task_key t" by (simp add: task_key_def)
  show ?thesis
  proof (cases "t_cachingEnabled t \<and> task_key t \<noteq> None")
    case True
    then obtain k' where k': "task_key t = Some k'" by auto
    with True free have "inflightItems w k' = None" by simp
    with True k' k have "\<exists>k. t_cachingEnabled ?t' \<and> task_key ?t' = Some k \<and> inflightItems w k = None
        \<and> (inflightItems w)(k' \<mapsto> n) = (inflightItems w)(k \<mapsto> n)"
      by auto
    then have "inv3 ((tasks w)(n \<mapsto> ?t')) ((inflightItems w)(k' \<mapsto> n))
                 (spawned w @ [(n, list_metadata_args (t_metadataType t) @ [''--json''])])"
      using c w unfolding coalesced_inv3 by (intro inv3_fetch) auto
    then show ?thesis
      using True k' by (simp add: coalesced_inv3 start_fetch_def Let_def)
  next
    case False
    then have "\<not> (t_cachingEnabled ?t' \<and> task_key ?t' \<noteq> None)" using k by simp
    then have "inv3 ((tasks w)(n \<mapsto> ?t')) (inflightItems w)
                 (spawned w @ [(n, list_metadata_args (t_metadataType t) @ [''--json''])])"
      using c w unfolding coalesced_inv3 by (intro inv3_fetch) auto
    then show ?thesis
      using False by (auto simp: coalesced_inv3 start_fetch_def Let_def split: option.splits)
  qed
qed

lemma coalesced_coalesce_or_fetch:
  assumes c: "coalesced w" and w: "waiting (tasks w) n"
  shows "coalesced (coalesce_or_fetch n t w)"
proof (cases "task_key t")
  case None
  then show ?thesis
    using c w by (simp add: coalesce_or_fetch_def coalesced_start_fetch)
next
  case (Some k)
  show ?thesis
  proof (cases "inflightItems w k")
    case None
    with Some show ?thesis
      using c w by (simp add: coalesce_or_fetch_def coalesced_start_fetch)
  next
    case (Some owner)
    with c obtain ot where ot: "tasks w owner = Some ot" "in_fetch (t_pc ot)"
      unfolding coalesced_def registered_def by blast
    with c have po: "t_promise ot = Some owner"
      unfolding coalesced_def own_promise_def by blast
    have "owner \<noteq> n" using w ot by (auto dest: waiting_not_owner)
    with ot po have "inv3 ((tasks w)(n \<mapsto> t\<lparr>t_promise := Some owner, t_pc := Joined\<rparr>))
            (inflightItems w) (spawned w)"
      using c w unfolding coalesced_inv3 by (intro inv3_idle) auto
    with Some \<open>task_key t = Some k\<close> show ?thesis
      by (simp add: coalesce_or_fetch_def coalesced_inv3)
  qed
qed

lemma coalesced_after_org:
  assumes c: "coalesced w" and w: "waiting (tasks w) n" and p: "t_promise t = None"
  shows "coalesced (after_org n t w)"
proof -
  have idle: "coalesced (set_pc n t q w)" if "\<not> in_fetch q" "q \<noteq> Joined" for q
    using c w p that unfolding coalesced_inv3 by (auto intro!: inv3_idle)
  show ?thesis
    unfolding after_org_def
    by (auto split: option.splits intro!: idle coalesced_coalesce_or_fetch [OF c w])
qed

lemma coalesced_after_disk:
  assumes c: "coalesced w" and w: "waiting (tasks w) n" and p: "t_promise t = None"
  shows "coalesced (after_disk n t w)"
proof -
  have idle: "coalesced (set_pc n t (Done r) (w\<lparr>metadataItemsCache := m\<rparr>))" for r m
    using c w p unfolding coalesced_inv3 by (auto intro!: inv3_idle)
  show ?thesis
    unfolding after_disk_def
    by (auto split: option.splits intro!: idle coalesced_coalesce_or_fetch [OF c w])
qed

lemma coalesced_after_process:
  assumes c: "coalesced w" and cur: "tasks w n = Some t" "t_pc t = Fetching"
  shows "coalesced (after_process n t outcome w)"
proof -
  have prog: "coalesced (set_pc n t q (w\<lparr>metadataItemsCache := m\<rparr>))"
    and prog': "coalesced (set_pc n t q w)" if "in_fetch q" for q m
    using c cur that unfolding coalesced_inv3 by (auto intro!: inv3_progress)
  show ?thesis
    unfolding after_process_def Let_def
    by (auto split: settled.splits option.splits intro!: prog prog')
qed

lemma coalesced_resume:
  assumes c: "coalesced w" and cur: "tasks w n = Some t"
  shows "coalesced (resume n t w)"
proof (cases "t_pc t")
  case (Settled r)
  have "inv3 ((tasks w)(n \<mapsto> t\<lparr>t_pc := Done r\<rparr>)) F' (spawned w)"
    if "(\<exists>k. t_cachingEnabled t \<and> task_key t = Some k \<and> F' = (inflightItems w)(k := None))
         \<or> (\<not> (t_cachingEnabled t \<and> task_key t \<noteq> None) \<and> F' = inflightItems w)" for F'
    using c cur Settled that unfolding coalesced_inv3 by (intro inv3_finally)
  then show ?thesis
    using Settled by (auto simp: resume_def coalesced_inv3 split: option.splits)
next
  case Joined
  show ?thesis
  proof (cases "t_promise t")
    case None
    with Joined c show ?thesis by (simp add: resume_def)
  next
    case (Some owner)
    show ?thesis
    proof (cases "tasks w owner")
      case None
      with Joined Some c show ?thesis by (simp add: resume_def)
    next
      case ot: (Some ot)
      show ?thesis
      proof (cases "settled_result (t_pc ot)")
        case None
        with Joined Some ot c show ?thesis by (simp add: resume_def)
      next
        case r: (Some r)
        have "inv3 ((tasks w)(n \<mapsto> t\<lparr>t_pc := Done r\<rparr>)) (inflightItems w) (spawned w)"
          using c cur Joined Some ot r unfolding coalesced_inv3 by (intro inv3_joined_done)
        with Joined Some ot r show ?thesis by (simp add: resume_def coalesced_inv3)
      qed
    qed
  qed
qed (use c in \<open>simp_all add: resume_def\<close>)

lemma coalesced_step:
  assumes c: "coalesced w"
  shows "coalesced (step e w)"
proof (cases e)
  case (Call n ty)
  then show ?thesis using c by (auto split: option.splits intro: coalesced_new_call)
next
  case (OrgResolved n org)
  show ?thesis
  proof (cases "tasks w n")
    case None
    with OrgResolved c show ?thesis by simp
  next
    case (Some t)
    show ?thesis
    proof (cases "t_pc t = AwaitOrg")
      case True
      with Some have w: "waiting (tasks w) n" by (simp add: waiting_def)
      have "t_promise t = None"
        using c Some True unfolding coalesced_def own_promise_def by blast
      then have "t_promise (t\<lparr>t_currentOrgId := org\<rparr>) = None" by simp
      from coalesced_after_org [OF c w this] OrgResolved Some True show ?thesis by simp
    next
      case False
      with OrgResolved Some c show ?thesis by simp
    qed
  qed
next
  case (DiskLoaded n)
  show ?thesis
  proof (cases "tasks w n")
    case None
    with DiskLoaded c show ?thesis by simp
  next
    case (Some t)
    show ?thesis
    proof (cases "t_pc t = AwaitDisk")
      case True
      with Some have w: "waiting (tasks w) n" by (simp add: waiting_def)
      have "t_promise t = None"
        using c Some True unfolding coalesced_def own_promise_def by blast
      from coalesced_after_disk [OF c w this] DiskLoaded Some True show ?thesis by simp
    next
      case False
      with DiskLoaded Some c show ?thesis by simp
    qed
  qed
next
  case (ProcessEnded n outcome)
  then show ?thesis
    using c by (auto split: option.splits intro: coalesced_after_process)
next
  case (DiskSaved n)
  show ?thesis
  proof (cases "tasks w n")
    case None
    with DiskSaved c show ?thesis by simp
  next
    case (Some t)
    show ?thesis
    proof (cases "t_pc t")
      case (Saving stamped)
      have "inv3 ((tasks w)(n \<mapsto> t\<lparr>t_pc := Settled (Returned (items stamped))\<rparr>))
              (inflightItems w) (spawned w)"
        using c Some Saving unfolding coalesced_inv3 by (intro inv3_progress) auto
      with DiskSaved Some Saving show ?thesis by (simp add: coalesced_inv3)
    qed (use DiskSaved Some c in simp_all)
  qed
next
  case (Resumed n)
  then show ?thesis
    using c by (auto split: option.splits intro: coalesced_resume)
next
  case (ConfigChanged cfg)
  then show ?thesis using c by (simp add: coalesced_def)
next
  case (ItemsCacheCleared org)
  then show ?thesis using c by (simp add: coalesced_def)
next
  case (Advance d)
  then show ?thesis using c by (simp add: coalesced_def)
qed

lemma coalesced_run: "coalesced w \<Longrightarrow> coalesced (run es w)"
  unfolding run_def by (induction es arbitrary: w) (simp_all add: coalesced_step)

lemma idle_coalesced: "idle w \<Longrightarrow> coalesced w"
  by (simp add: idle_def coalesced_def registered_def shared_results_def own_promise_def
      spawned_by_owners_def)

lemma count_one:
  "distinct (map fst S) \<Longrightarrow> x \<in> fst ` set S \<Longrightarrow> length (filter (\<lambda>(m, a). m = x) S) = 1"
proof (induction S)
  case Nil
  then show ?case by simp
next
  case (Cons p S)
  obtain m a where p: "p = (m, a)" by (cases p)
  show ?case
  proof (cases "m = x")
    case True
    with Cons.prems p have "x \<notin> fst ` set S" by auto
    then have "filter (\<lambda>(m, a). m = x) S = []"
      by (force simp: filter_empty_conv)
    with True p show ?thesis by simp
  next
    case False
    with Cons p show ?thesis by auto
  qed
qed

lemmas model_defs = run_def new_call_def after_org_def after_disk_def after_process_def
  coalesce_or_fetch_def start_fetch_def resume_def set_pc_def task_key_def cacheKey_def
  cachingEnabled_def loadMetadataItemsFromDisk_def existsSync_def readFile_def
  getMetadataItemsCachePath_def path_join_def safeMetadataType_def is_alnum_def fresh_in_def
  isFresh_def write_items_def writeFile_def list_metadata_args_def runSfJson_def
  result_or_empty_def settled_result_def Let_def started_def default_settings_def empty_disk_def
  items_payload_def truthy_opt_def failed_with_exit_def show_code_def plain_error_def
  caching_off_def affects_cache_def applyConfigSettings_def ttl_days_def dir_exists_def
  Number_def math_max_def math_min_def multiply_def js_less_def
  readdir_def idle_def

text \<open>
  C1: from a state with no call in progress and after any events: (1) for every cache
  key, at most one call that had caching enabled has its process running for that key;
  (2) for every call that awaits or has returned a promise, exactly one process was
  spawned for that promise, none of them by a call that returned the promise of another
  call, and a finished call has the result, list or rejection, with which that promise
  settled; (3) so all calls that returned one promise and are finished have the same
  result; (4) a call that reaches the coalescing check with a key for which such a
  process runs spawns nothing and returns the promise of the call that runs it. In the
  witness the three calls reach the coalescing check while the process of the first
  runs: one process, one list for all three. In the counterexample the process of the
  first call fails and the call ends while the second call, started before, still
  resolves its org: nothing is cached and nothing is registered when the second call
  reaches the check, and it spawns a second process and returns a list while the first
  call was rejected.
\<close>

theorem one_fetch_in_flight:
  assumes "idle w0"
  shows "(\<forall>a b k. fetching_for (run es w0) a k \<and> fetching_for (run es w0) b k \<longrightarrow> a = b)
       \<and> (\<forall>n t owner. tasks (run es w0) n = Some t \<and> t_promise t = Some owner \<longrightarrow>
            length (filter (\<lambda>(m, args). m = owner) (spawned (run es w0))) = 1
            \<and> (owner \<noteq> n \<longrightarrow> n \<notin> fst ` set (spawned (run es w0)))
            \<and> (\<forall>r. t_pc t = Done r \<longrightarrow>
                 (\<exists>ot. tasks (run es w0) owner = Some ot \<and> settled_result (t_pc ot) = Some r)))
       \<and> (\<forall>n m t u owner r r'. tasks (run es w0) n = Some t \<and> tasks (run es w0) m = Some u
            \<and> t_promise t = Some owner \<and> t_promise u = Some owner
            \<and> t_pc t = Done r \<and> t_pc u = Done r' \<longrightarrow> r = r')
       \<and> (\<forall>n t k owner. fetching_for (run es w0) owner k \<and> task_key t = Some k \<longrightarrow>
            spawned (coalesce_or_fetch n t (run es w0)) = spawned (run es w0)
            \<and> tasks (coalesce_or_fetch n t (run es w0)) n
                = Some (t\<lparr>t_promise := Some owner, t_pc := Joined\<rparr>))"
proof -
  let ?w = "run es w0"
  have c: "coalesced ?w" using assms by (intro coalesced_run idle_coalesced)
  then have reg: "registered (tasks ?w) (inflightItems ?w)" and sh: "shared_results (tasks ?w)"
    and own: "own_promise (tasks ?w)" and sp: "spawned_by_owners (tasks ?w) (spawned ?w)"
    by (simp_all add: coalesced_def)
  have one: "a = b" if "fetching_for ?w a k" "fetching_for ?w b k" for a b k
  proof -
    from that(1) obtain ta where "tasks ?w a = Some ta" "t_cachingEnabled ta"
      "task_key ta = Some k" "in_fetch (t_pc ta)"
      by (auto simp: fetching_for_def split: option.splits)
    with reg have a: "inflightItems ?w k = Some a" unfolding registered_def by blast
    from that(2) obtain tb where "tasks ?w b = Some tb" "t_cachingEnabled tb"
      "task_key tb = Some k" "in_fetch (t_pc tb)"
      by (auto simp: fetching_for_def split: option.splits)
    with reg have "inflightItems ?w k = Some b" unfolding registered_def by blast
    with a show ?thesis by simp
  qed
  have part: "length (filter (\<lambda>(m, args). m = owner) (spawned ?w)) = 1
            \<and> (owner \<noteq> n \<longrightarrow> n \<notin> fst ` set (spawned ?w))
            \<and> (\<forall>r. t_pc t = Done r \<longrightarrow>
                 (\<exists>ot. tasks ?w owner = Some ot \<and> settled_result (t_pc ot) = Some r))"
    if t: "tasks ?w n = Some t" "t_promise t = Some owner" for n t owner
  proof (intro conjI allI impI)
    from own t obtain ot where "tasks ?w owner = Some ot" "t_promise ot = Some owner"
      unfolding own_promise_def by blast
    with sp have "owner \<in> fst ` set (spawned ?w)" unfolding spawned_by_owners_def by blast
    moreover from sp have "distinct (map fst (spawned ?w))" by (simp add: spawned_by_owners_def)
    ultimately show "length (filter (\<lambda>(m, args). m = owner) (spawned ?w)) = 1"
      by (intro count_one)
  next
    assume "owner \<noteq> n"
    with sp t show "n \<notin> fst ` set (spawned ?w)" unfolding spawned_by_owners_def by auto
  next
    fix r assume "t_pc t = Done r"
    with sh t show "\<exists>ot. tasks ?w owner = Some ot \<and> settled_result (t_pc ot) = Some r"
      unfolding shared_results_def by blast
  qed
  have same: "r = r'"
    if "tasks ?w n = Some t" "tasks ?w m = Some u" "t_promise t = Some owner"
      "t_promise u = Some owner" "t_pc t = Done r" "t_pc u = Done r'" for n m t u owner r r'
  proof -
    from sh that(1,3,5) obtain ot where "tasks ?w owner = Some ot"
      "settled_result (t_pc ot) = Some r" unfolding shared_results_def by blast
    moreover from sh that(2,4,6) obtain ot' where "tasks ?w owner = Some ot'"
      "settled_result (t_pc ot') = Some r'" unfolding shared_results_def by blast
    ultimately show ?thesis by simp
  qed
  have A: "\<forall>a b k. fetching_for ?w a k \<and> fetching_for ?w b k \<longrightarrow> a = b"
    using one by blast
  have B: "\<forall>n t owner. tasks ?w n = Some t \<and> t_promise t = Some owner \<longrightarrow>
            length (filter (\<lambda>(m, args). m = owner) (spawned ?w)) = 1
            \<and> (owner \<noteq> n \<longrightarrow> n \<notin> fst ` set (spawned ?w))
            \<and> (\<forall>r. t_pc t = Done r \<longrightarrow>
                 (\<exists>ot. tasks ?w owner = Some ot \<and> settled_result (t_pc ot) = Some r))"
  proof (intro allI impI)
    fix n t owner
    assume "tasks ?w n = Some t \<and> t_promise t = Some owner"
    then have t: "tasks ?w n = Some t" "t_promise t = Some owner" by simp_all
    from part [OF t]
    show "length (filter (\<lambda>(m, args). m = owner) (spawned ?w)) = 1
            \<and> (owner \<noteq> n \<longrightarrow> n \<notin> fst ` set (spawned ?w))
            \<and> (\<forall>r. t_pc t = Done r \<longrightarrow>
                 (\<exists>ot. tasks ?w owner = Some ot \<and> settled_result (t_pc ot) = Some r))" .
  qed
  have C: "\<forall>n m t u owner r r'. tasks ?w n = Some t \<and> tasks ?w m = Some u
            \<and> t_promise t = Some owner \<and> t_promise u = Some owner
            \<and> t_pc t = Done r \<and> t_pc u = Done r' \<longrightarrow> r = r'"
    using same by blast
  have D: "\<forall>n t k owner. fetching_for ?w owner k \<and> task_key t = Some k \<longrightarrow>
            spawned (coalesce_or_fetch n t ?w) = spawned ?w
            \<and> tasks (coalesce_or_fetch n t ?w) n
                = Some (t\<lparr>t_promise := Some owner, t_pc := Joined\<rparr>)"
  proof (intro allI impI)
    fix n t k owner
    assume a: "fetching_for ?w owner k \<and> task_key t = Some k"
    then obtain ot where "tasks ?w owner = Some ot" "t_cachingEnabled ot"
      "task_key ot = Some k" "in_fetch (t_pc ot)"
      by (auto simp: fetching_for_def split: option.splits)
    with reg have "inflightItems ?w k = Some owner" unfolding registered_def by blast
    with a show "spawned (coalesce_or_fetch n t ?w) = spawned ?w
            \<and> tasks (coalesce_or_fetch n t ?w) n
                = Some (t\<lparr>t_promise := Some owner, t_pc := Joined\<rparr>)"
      by (simp add: coalesce_or_fetch_def)
  qed
  show ?thesis
    by (rule conjI [OF A conjI [OF B conjI [OF C D]]])
qed

theorem one_fetch_in_flight_witness:
  "idle started
   \<and> fetching_for (run three_callers started) 0 ''00Dxx:ApexClass''
   \<and> \<not> fetching_for (run three_callers started) 1 ''00Dxx:ApexClass''
   \<and> map_option t_promise (tasks (run three_callers started) 1) = Some (Some 0)
   \<and> map_option t_promise (tasks (run three_callers started) 2) = Some (Some 0)
   \<and> length (filter (\<lambda>(m, args). m = 0) (spawned (run three_callers started))) = 1
   \<and> 1 \<notin> fst ` set (spawned (run three_callers started))
   \<and> spawned (run (three_callers @ three_callers_end) started)
       = [(0, [''org'', ''list'', ''metadata'', ''-m'', ''ApexClass'', ''--json''])]
   \<and> map_option t_pc (tasks (run (three_callers @ three_callers_end) started) 0)
       = Some (Done (Returned (JArr [JObj [(''fullName'', JStr ''Foo'')]])))
   \<and> map_option t_pc (tasks (run (three_callers @ three_callers_end) started) 1)
       = Some (Done (Returned (JArr [JObj [(''fullName'', JStr ''Foo'')]])))
   \<and> map_option t_pc (tasks (run (three_callers @ three_callers_end) started) 2)
       = Some (Done (Returned (JArr [JObj [(''fullName'', JStr ''Foo'')]])))"
proof -
  let ?w = "run three_callers started"
  have i: "idle started" by (simp add: idle_def started_def)
  note inv = one_fetch_in_flight [OF i, of three_callers]
  from inv have A: "\<forall>a b k. fetching_for ?w a k \<and> fetching_for ?w b k \<longrightarrow> a = b"
    by (rule conjunct1)
  from inv have B: "\<forall>n t owner. tasks ?w n = Some t \<and> t_promise t = Some owner \<longrightarrow>
            length (filter (\<lambda>(m, args). m = owner) (spawned ?w)) = 1
            \<and> (owner \<noteq> n \<longrightarrow> n \<notin> fst ` set (spawned ?w))
            \<and> (\<forall>r. t_pc t = Done r \<longrightarrow>
                 (\<exists>ot. tasks ?w owner = Some ot \<and> settled_result (t_pc ot) = Some r))"
    by (rule conjunct1 [OF conjunct2])
  have f0: "fetching_for ?w 0 ''00Dxx:ApexClass''"
    by (simp add: model_defs three_callers_def fetching_for_def)
  have nf1: "\<not> fetching_for ?w 1 ''00Dxx:ApexClass''"
  proof
    assume "fetching_for ?w 1 ''00Dxx:ApexClass''"
    with f0 have "fetching_for ?w 0 ''00Dxx:ApexClass'' \<and> fetching_for ?w 1 ''00Dxx:ApexClass''"
      by simp
    from A [rule_format, OF this] show False by simp
  qed
  have p: "map_option t_promise (tasks ?w 1) = Some (Some 0)"
    "map_option t_promise (tasks ?w 2) = Some (Some 0)"
    by (simp_all add: model_defs three_callers_def)
  then obtain t1 where t1: "tasks ?w 1 = Some t1 \<and> t_promise t1 = Some 0"
    by auto
  from B [rule_format, OF t1]
  have one: "length (filter (\<lambda>(m, args). m = 0) (spawned ?w)) = 1"
    and none: "1 \<notin> fst ` set (spawned ?w)"
    by simp_all
  have e: "spawned (run (three_callers @ three_callers_end) started)
       = [(0, [''org'', ''list'', ''metadata'', ''-m'', ''ApexClass'', ''--json''])]"
    "map_option t_pc (tasks (run (three_callers @ three_callers_end) started) 0)
       = Some (Done (Returned (JArr [JObj [(''fullName'', JStr ''Foo'')]])))"
    "map_option t_pc (tasks (run (three_callers @ three_callers_end) started) 1)
       = Some (Done (Returned (JArr [JObj [(''fullName'', JStr ''Foo'')]])))"
    "map_option t_pc (tasks (run (three_callers @ three_callers_end) started) 2)
       = Some (Done (Returned (JArr [JObj [(''fullName'', JStr ''Foo'')]])))"
    by (simp_all add: model_defs three_callers_def three_callers_end_def)
  show ?thesis
    using i f0 nf1 p one none e by simp
qed

theorem second_fetch_counterexample:
  "idle started
   \<and> metadataItemsCache started = [] \<and> files (fs started) = []
   \<and> map_option t_cachingEnabled (tasks (run first_call_fails started) 0) = Some True
   \<and> map_option t_cachingEnabled (tasks (run first_call_fails started) 1) = Some True
   \<and> map_option t_pc (tasks (run first_call_fails started) 1) = Some AwaitOrg
   \<and> metadataItemsCache (run first_call_fails started) = []
   \<and> files (fs (run first_call_fails started)) = []
   \<and> map_option task_key (tasks (run (first_call_fails @ second_call_fetches) started) 0)
       = Some (Some ''00Dxx:ApexClass'')
   \<and> map_option task_key (tasks (run (first_call_fails @ second_call_fetches) started) 1)
       = Some (Some ''00Dxx:ApexClass'')
   \<and> spawned (run (first_call_fails @ second_call_fetches) started)
       = [(0, [''org'', ''list'', ''metadata'', ''-m'', ''ApexClass'', ''--json'']),
          (1, [''org'', ''list'', ''metadata'', ''-m'', ''ApexClass'', ''--json''])]
   \<and> map_option t_pc (tasks (run (first_call_fails @ second_call_fetches) started) 0)
       = Some (Done (Threw (SfCliError
            \<lparr>message = ''ERROR'', codeStr = None, ctx = None, status = None,
             exitCode = Some (JNum 1), stderr = Some ''ERROR'', rawJson = None\<rparr>)))
   \<and> map_option t_pc (tasks (run (first_call_fails @ second_call_fetches) started) 1)
       = Some (Done (Returned (JArr [JObj [(''fullName'', JStr ''Foo'')]])))"
  by (simp add: model_defs first_call_fails_def second_call_fetches_def)

text \<open>
  C8: the schedule in which the claim fails. The first call had caching enabled and is
  registered; the settings are changed to switch the cache off while its process runs;
  the second call reads \<^verbatim>\<open>cachingEnabled = false\<close>, finds the key in \<^verbatim>\<open>inflightItems\<close> and
  returns the promise of the first call without starting a fetch of its own.
\<close>

theorem disabled_call_joins:
  "map_option t_cachingEnabled (tasks (run switched_off_in_flight started) 0) = Some True
   \<and> map_option t_pc (tasks (run switched_off_in_flight started) 0) = Some Fetching
   \<and> inflightItems (run switched_off_in_flight started) ''00Dxx:ApexClass'' = Some 0
   \<and> cachingEnabled (config (run switched_off_in_flight started)) = False
   \<and> map_option t_cachingEnabled (tasks (run switched_off_in_flight started) 1) = Some False
   \<and> map_option task_key (tasks (run switched_off_in_flight started) 1)
       = Some (Some ''00Dxx:ApexClass'')
   \<and> map_option t_pc (tasks (run switched_off_in_flight started) 1) = Some Joined
   \<and> map_option t_promise (tasks (run switched_off_in_flight started) 1) = Some (Some 0)
   \<and> map fst (spawned (run switched_off_in_flight started)) = [0]"
  by (simp add: model_defs switched_off_in_flight_def)

end
